theory Spec2Isabelle
  imports Complex_Main
begin

section \<open>Python strings\<close>

text \<open>
  A Python \<open>str\<close> is modelled as a \<^typ>\<open>string\<close>: the list of its code points, each
  below 256 (Latin-1), so that one \<^typ>\<open>char\<close> is one code point. The character classes
  below are those of CPython for this range: \<open>str.isspace\<close> (used by \<open>str.strip\<close>,
  \<open>str.split\<close> and the regular expression class \<open>\s\<close>) and the line boundaries of
  \<open>str.splitlines\<close>.
\<close>

definition LF :: char where
  "LF = CHR 0x0A"

definition CR :: char where
  "CR = CHR 0x0D"

definition is_space :: "char \<Rightarrow> bool" where
  "is_space c \<longleftrightarrow>
     c \<in> set [CHR 0x09, CHR 0x0A, CHR 0x0B, CHR 0x0C, CHR 0x0D, CHR 0x1C, CHR 0x1D,
              CHR 0x1E, CHR 0x1F, CHR 0x20, CHR 0x85, CHR 0xA0]"

definition is_linebreak :: "char \<Rightarrow> bool" where
  "is_linebreak c \<longleftrightarrow>
     c \<in> set [CHR 0x0A, CHR 0x0B, CHR 0x0C, CHR 0x0D, CHR 0x1C, CHR 0x1D, CHR 0x1E, CHR 0x85]"

definition lstrip :: "string \<Rightarrow> string" where
  "lstrip s = dropWhile is_space s"

definition rstrip :: "string \<Rightarrow> string" where
  "rstrip s = rev (dropWhile is_space (rev s))"

text \<open>\<open>s.strip()\<close>\<close>

definition strip :: "string \<Rightarrow> string" where
  "strip s = rstrip (lstrip s)"

text \<open>
  \<open>s.splitlines()\<close>: the text is cut at every line boundary, \<open>\r\n\<close> counting as one;
  the boundaries are dropped and a final boundary opens no empty last line. The flag says
  that the previous character was a \<open>\r\<close>, the accumulator is the line read so far.
\<close>

fun splitlines_aux :: "bool \<Rightarrow> string \<Rightarrow> string \<Rightarrow> string list" where
  "splitlines_aux after_cr cur [] = (if cur = [] then [] else [cur])"
| "splitlines_aux after_cr cur (c # cs) =
     (if after_cr \<and> c = LF then splitlines_aux False cur cs
      else if is_linebreak c then cur # splitlines_aux (c = CR) [] cs
      else splitlines_aux False (cur @ [c]) cs)"

definition splitlines :: "string \<Rightarrow> string list" where
  "splitlines s = splitlines_aux False [] s"

text \<open>\<open>sep.join(parts)\<close>\<close>

fun str_join :: "string \<Rightarrow> string list \<Rightarrow> string" where
  "str_join sep [] = []"
| "str_join sep [x] = x"
| "str_join sep (x # y # ys) = x @ sep @ str_join sep (y # ys)"

text \<open>A text without a line boundary: one line for \<open>splitlines\<close>.\<close>

definition no_linebreak :: "string \<Rightarrow> bool" where
  "no_linebreak s \<longleftrightarrow> list_all (\<lambda>c. \<not> is_linebreak c) s"

text \<open>\<open>s.endswith(":")\<close>\<close>

definition endswith_colon :: "string \<Rightarrow> bool" where
  "endswith_colon s \<longleftrightarrow> s \<noteq> [] \<and> last s = CHR '':''"

section \<open>Python dictionaries\<close>

text \<open>
  A \<open>dict\<close> is an association list in insertion order: storing under a key that is
  present replaces the value in place, storing under a new key appends the item.
\<close>

type_synonym ('k, 'v) dict = "('k \<times> 'v) list"

definition dict_get :: "('k, 'v) dict \<Rightarrow> 'k \<Rightarrow> 'v option" where
  "dict_get d k = map_of d k"

fun dict_set :: "('k, 'v) dict \<Rightarrow> 'k \<Rightarrow> 'v \<Rightarrow> ('k, 'v) dict" where
  "dict_set [] k v = [(k, v)]"
| "dict_set ((k', v') # d) k v =
     (if k' = k then (k, v) # d else (k', v') # dict_set d k v)"

text \<open>
  The exceptions, all of them subclasses of \<open>Exception\<close>, with their message
  (\<open>str(e)\<close>). \<open>CancelledError\<close> is the orchestrator's own subclass of
  \<open>RuntimeError\<close>, \<open>LLMError\<close> that of \<open>utils/llm.py\<close>; \<open>OtherError\<close> carries
  its class name.
\<close>

datatype exn =
    KeyError string
  | AttributeError string
  | RuntimeError string
  | CancelledError string
  | LLMError string
  | OtherError string string

section \<open>utils/sections.py\<close>

text \<open>
  The test of lines 22 to 24 of \<open>split_by_headers\<close>: the trimmed line ends with a colon
  and what stands before the colon, trimmed again, is in \<open>header_set\<close>, the set of the
  trimmed headers. The result is the section name the line opens.
\<close>

definition header_name :: "string list \<Rightarrow> string \<Rightarrow> string option" where
  "header_name headers line =
     (let stripped = strip line in
      if endswith_colon stripped then
        (let name = strip (butlast stripped) in
         if name \<in> set (map strip headers) then Some name else None)
      else None)"

text \<open>
  The loop over the lines. \<open>out_lines[current].append(ln)\<close> raises \<open>KeyError\<close> when
  \<open>current\<close>, a trimmed name, is no key of \<open>out_lines\<close>, whose keys are the headers as
  given.
\<close>

fun split_loop ::
  "string list \<Rightarrow> string option \<Rightarrow> (string, string list) dict \<Rightarrow> string list
     \<Rightarrow> exn + (string, string list) dict" where
  "split_loop headers current out_lines [] = Inr out_lines"
| "split_loop headers current out_lines (line # rest) =
     (case header_name headers line of
        Some name \<Rightarrow> split_loop headers (Some name) out_lines rest
      | None \<Rightarrow>
          (case current of
             None \<Rightarrow> split_loop headers None out_lines rest
           | Some cur \<Rightarrow>
               (case dict_get out_lines cur of
                  None \<Rightarrow> Inl (KeyError cur)
                | Some v \<Rightarrow> split_loop headers current (dict_set out_lines cur (v @ [line])) rest)))"

definition split_by_headers :: "string \<Rightarrow> string list \<Rightarrow> exn + (string, string) dict" where
  "split_by_headers report_text headers =
     (let lines = splitlines report_text;
          out_lines = foldl (\<lambda>d h. dict_set d h []) [] headers
      in case split_loop headers None out_lines lines of
           Inl e \<Rightarrow> Inl e
         | Inr out \<Rightarrow> Inr (map (\<lambda>(k, v). (k, strip (str_join [LF] v))) out))"

text \<open>\<open>sections.get(h) or ""\<close>\<close>

definition get_or_empty :: "(string, string) dict \<Rightarrow> string \<Rightarrow> string" where
  "get_or_empty sections h = (case dict_get sections h of None \<Rightarrow> [] | Some v \<Rightarrow> v)"

definition join_sections :: "(string, string) dict \<Rightarrow> string list \<Rightarrow> string" where
  "join_sections sections headers =
     strip (str_join [LF]
       (concat (map (\<lambda>h. [h @ '':'', strip (get_or_empty sections h), []]) headers)))"

section \<open>The sections of a text, header by header\<close>

text \<open>
  \<open>section_lines headers h active lines\<close> are the lines that belong to the header \<open>h\<close>:
  a header line, as \<open>split_by_headers\<close> recognises it, opens the section it names and
  closes the one that was open; the other lines belong to the section that is open.
  \<open>active\<close> says whether the section of \<open>h\<close> is the open one.
\<close>

fun section_lines :: "string list \<Rightarrow> string \<Rightarrow> bool \<Rightarrow> string list \<Rightarrow> string list" where
  "section_lines headers h active [] = []"
| "section_lines headers h active (line # rest) =
     (case header_name headers line of
        Some name \<Rightarrow> section_lines headers h (name = h) rest
      | None \<Rightarrow>
          (if active then line # section_lines headers h True rest
           else section_lines headers h False rest))"

text \<open>The keys of \<open>{h: [] for h in headers}\<close>: each header once, where it is first listed.\<close>

definition first_occurrences :: "'a list \<Rightarrow> 'a list" where
  "first_occurrences xs = rev (remdups (rev xs))"

text \<open>
  The specification's reading of \<open>split_by_headers\<close>, in its words: a header line is a
  line that, trimmed, is equal to a header followed by a colon.
\<close>

definition spec_header_name :: "string list \<Rightarrow> string \<Rightarrow> string option" where
  "spec_header_name headers line = find (\<lambda>h. strip line = h @ '':'') headers"

fun spec_section_lines :: "string list \<Rightarrow> string \<Rightarrow> bool \<Rightarrow> string list \<Rightarrow> string list" where
  "spec_section_lines headers h active [] = []"
| "spec_section_lines headers h active (line # rest) =
     (case spec_header_name headers line of
        Some name \<Rightarrow> spec_section_lines headers h (name = h) rest
      | None \<Rightarrow>
          (if active then line # spec_section_lines headers h True rest
           else spec_section_lines headers h False rest))"

definition spec_split_by_headers :: "string \<Rightarrow> string list \<Rightarrow> (string, string) dict" where
  "spec_split_by_headers report_text headers =
     map (\<lambda>h. (h, strip (str_join [LF]
                  (spec_section_lines headers h False (splitlines report_text)))))
       (first_occurrences headers)"

section \<open>More of Python's strings\<close>

text \<open>
  \<open>s.lower()\<close> on code points below 256: the letters \<open>A\<close> to \<open>Z\<close> and the accented
  capitals \<open>0xC0\<close> to \<open>0xDE\<close> (\<open>0xD7\<close>, the multiplication sign, apart) move up by 32.
\<close>

definition lower_char :: "char \<Rightarrow> char" where
  "lower_char c =
     (let n = (of_char c :: nat) in
      if (65 \<le> n \<and> n \<le> 90) \<or> (192 \<le> n \<and> n \<le> 222 \<and> n \<noteq> 215)
      then char_of (n + 32) else c)"

definition lower :: "string \<Rightarrow> string" where
  "lower s = map lower_char s"

text \<open>\<open>s.startswith(t)\<close> and \<open>t in s\<close>\<close>

fun startswith :: "string \<Rightarrow> string \<Rightarrow> bool" where
  "startswith s [] = True"
| "startswith [] (c # t) = False"
| "startswith (d # s) (c # t) = (d = c \<and> startswith s t)"

fun contains :: "string \<Rightarrow> string \<Rightarrow> bool" where
  "contains [] t = (t = [])"
| "contains (c # s) t = (startswith (c # s) t \<or> contains s t)"

text \<open>\<open>s.split()\<close>: the maximal runs of characters that are no whitespace\<close>

fun split_ws_aux :: "string \<Rightarrow> string \<Rightarrow> string list" where
  "split_ws_aux cur [] = (if cur = [] then [] else [cur])"
| "split_ws_aux cur (c # cs) =
     (if is_space c then (if cur = [] then split_ws_aux [] cs else cur # split_ws_aux [] cs)
      else split_ws_aux (cur @ [c]) cs)"

definition split_ws :: "string \<Rightarrow> string list" where
  "split_ws s = split_ws_aux [] s"

text \<open>\<open>str(n)\<close> for an integer\<close>

fun str_nat :: "nat \<Rightarrow> string" where
  "str_nat n =
     (if n < 10 then [char_of (48 + n)] else str_nat (n div 10) @ [char_of (48 + n mod 10)])"

definition str_int :: "int \<Rightarrow> string" where
  "str_int i = (if i < 0 then CHR ''-'' # str_nat (nat (- i)) else str_nat (nat i))"

section \<open>templates.py: the template configuration\<close>

text \<open>
  A template is a dictionary with fixed keys. A key that \<open>run_pipeline\<close> reads with a
  default and whose absence matters is an option (\<open>None\<close>: the key is absent); the
  dictionaries under \<open>quality\<close> are empty when absent.
\<close>

record quality_cfg =
  min_words :: "(string, int) dict"
  required_terms_by_section :: "(string, string list) dict"
  required_global_terms :: "string list"

record template_cfg =
  display_name :: "string option"
  instructions :: "string option"
  writer_format :: "string list"
  writer_rules :: "string list"
  preview_rows :: "int option"
  include_review :: "bool option"
  include_figures :: "bool option"
  quality :: quality_cfg

section \<open>utils/section\_validator.py\<close>

text \<open>
  \<open>re.search(rf"(?im)^\s*{re.escape(h)}\s*:\s*$", text)\<close>. With the flag \<open>m\<close>, \<open>^\<close>
  matches at the start of the text and after every \<open>\n\<close>, and \<open>$\<close> at the end of the
  text and before every \<open>\n\<close>; \<open>\s\<close> is any whitespace, line boundaries included; with
  the flag \<open>i\<close> two characters match when their lower-case forms agree.
  \<open>ws_suffixes s\<close> lists what is left of \<open>s\<close> after \<open>\s*\<close> has taken none, one, two,
  ... whitespace characters.
\<close>

fun ws_suffixes :: "string \<Rightarrow> string list" where
  "ws_suffixes [] = [[]]"
| "ws_suffixes (c # cs) = (c # cs) # (if is_space c then ws_suffixes cs else [])"

fun match_literal_i :: "string \<Rightarrow> string \<Rightarrow> string option" where
  "match_literal_i [] s = Some s"
| "match_literal_i (p # ps) [] = None"
| "match_literal_i (p # ps) (c # cs) =
     (if lower_char p = lower_char c then match_literal_i ps cs else None)"

definition at_line_end :: "string \<Rightarrow> bool" where
  "at_line_end s \<longleftrightarrow> (case s of [] \<Rightarrow> True | c # _ \<Rightarrow> c = LF)"

definition match_header_at :: "string \<Rightarrow> string \<Rightarrow> bool" where
  "match_header_at h s =
     list_ex (\<lambda>s1.
       case match_literal_i h s1 of
         None \<Rightarrow> False
       | Some s2 \<Rightarrow>
           list_ex (\<lambda>s3.
             case s3 of
               [] \<Rightarrow> False
             | c # s4 \<Rightarrow> c = CHR '':'' \<and> list_ex at_line_end (ws_suffixes s4))
           (ws_suffixes s2))
     (ws_suffixes s)"

fun line_starts :: "string \<Rightarrow> string list" where
  "line_starts [] = []"
| "line_starts (c # cs) = (if c = LF then cs # line_starts cs else line_starts cs)"

definition header_found :: "string \<Rightarrow> string \<Rightarrow> bool" where
  "header_found h text = list_ex (match_header_at h) (text # line_starts text)"

definition find_missing_headers :: "string \<Rightarrow> string list \<Rightarrow> string list" where
  "find_missing_headers report_text required_headers =
     filter (\<lambda>h. \<not> header_found h report_text) required_headers"

section \<open>utils/quality\_gate.py\<close>

record issue =
  kind :: string
  sect :: string
  detail :: string

record quality_report =
  q_ok :: bool
  q_issues :: "issue list"
  q_sections :: "(string, string) dict"

definition word_count :: "string \<Rightarrow> nat" where
  "word_count text = length (filter (\<lambda>w. strip w \<noteq> []) (split_ws text))"

definition too_short_issues :: "(string, string) dict \<Rightarrow> string \<times> int \<Rightarrow> issue list" where
  "too_short_issues sections = (\<lambda>(sec, min_n).
     let body = strip (get_or_empty sections sec) in
     if body \<noteq> [] \<and> int (word_count body) < min_n then
       [\<lparr>kind = ''too_short'', sect = sec,
         detail = ''Section '' @ [CHR 0x27] @ sec @ [CHR 0x27] @ '' is too short (''
           @ str_nat (word_count body) @ '' words, expected >= '' @ str_int min_n @ '').''\<rparr>]
     else [])"

definition missing_term_issues :: "(string, string) dict \<Rightarrow> string \<times> string list \<Rightarrow> issue list" where
  "missing_term_issues sections = (\<lambda>(sec, terms0).
     let body = lower (get_or_empty sections sec) in
     if body = [] then []
     else
       (let terms = map lower terms0 in
        if terms \<noteq> [] \<and> \<not> list_ex (\<lambda>t. contains body t) terms then
          [\<lparr>kind = ''missing_term'', sect = sec,
            detail = ''Section '' @ [CHR 0x27] @ sec @ [CHR 0x27]
              @ '' should mention at least one of: '' @ str_join '', '' terms @ ''.''\<rparr>]
        else []))"

text \<open>
  The four loops of \<open>evaluate_report_quality\<close> append to \<open>issues\<close> in turn. The
  function raises what \<open>split_by_headers\<close> raises.
\<close>

definition evaluate_report_quality :: "string \<Rightarrow> template_cfg \<Rightarrow> exn + quality_report" where
  "evaluate_report_quality report_text cfg =
     (let quality_cfg = quality cfg;
          required_headers = writer_format cfg
      in case (if required_headers \<noteq> [] then split_by_headers report_text required_headers
               else Inr []) of
           Inl e \<Rightarrow> Inl e
         | Inr sections \<Rightarrow>
             (let missing_headers =
                    (if required_headers \<noteq> [] then find_missing_headers report_text required_headers
                     else []);
                  issues1 = map (\<lambda>h. \<lparr>kind = ''missing_header'', sect = h,
                                        detail = ''Missing required header: '' @ h @ '':''\<rparr>)
                              missing_headers;
                  issues2 = concat (map (too_short_issues sections) (min_words quality_cfg));
                  issues3 = concat (map (missing_term_issues sections)
                                      (required_terms_by_section quality_cfg));
                  text_l = lower report_text;
                  issues4 = concat (map (\<lambda>t. if \<not> contains text_l t then
                                [\<lparr>kind = ''missing_global_term'', sect = ''*'',
                                  detail = ''Report should mention: '' @ t\<rparr>] else [])
                              (map lower (required_global_terms quality_cfg)));
                  issues = issues1 @ issues2 @ issues3 @ issues4
              in Inr \<lparr>q_ok = (issues = []), q_issues = issues, q_sections = sections\<rparr>))"

text \<open>\<open>build_quality_fix_prompt\<close>: at most the first twelve issues are listed.\<close>

definition build_quality_fix_prompt :: "issue list \<Rightarrow> template_cfg \<Rightarrow> string" where
  "build_quality_fix_prompt issues cfg =
     (let required = writer_format cfg;
          required_list = (if required \<noteq> [] then str_join '', '' (map (\<lambda>h. h @ '':'') required)
                           else ''(template-defined headers)'');
          bullets = str_join [LF] (map (\<lambda>i. ''- '' @ detail i) (take 12 issues))
      in ''IMPORTANT QUALITY FIX PASS:'' @ [LF]
         @ ''- Revise and return the FULL report.'' @ [LF]
         @ ''- Keep and preserve exact required headers: '' @ required_list @ [LF]
         @ ''- Do not invent facts or measurements.'' @ [LF]
         @ ''- Improve only the sections needed to resolve these quality issues:'' @ [LF]
         @ bullets @ [LF])"

section \<open>schemas.py\<close>

datatype agent_name = Research | Data | Writer | Reviewer | Diagram

text \<open>
  The values of a payload that the pipeline passes on without reading them. A
  floating-point number is the real number it stands for.
\<close>

datatype json =
    JNull
  | JBool bool
  | JInt int
  | JNum real
  | JStr string
  | JList "json list"
  | JObj "(string \<times> json) list"

text \<open>
  A payload is a dictionary; the keys the agents store are its fields, \<open>None\<close> for a key
  that is absent, each with the type of the value the agents store under it.
\<close>

record payload =
  p_theory_text :: "string option"
  p_research_facts :: "(string, json) dict option"
  p_data_summary :: "(string, json) dict option"
  p_data_highlights :: "(string, json) dict option"
  p_report_text :: "string option"
  p_sections :: "(string, string) dict option"
  p_review_text :: "string option"
  p_figures_text :: "string option"

definition empty_payload :: payload where
  "empty_payload = \<lparr>p_theory_text = None, p_research_facts = None, p_data_summary = None,
     p_data_highlights = None, p_report_text = None, p_sections = None, p_review_text = None,
     p_figures_text = None\<rparr>"

record AgentError =
  message :: string
  err_detail :: "string option"

record AgentResult =
  ok :: bool
  agent :: agent_name
  job_id :: string
  payload :: payload
  warnings :: "string list"
  error :: "AgentError option"

text \<open>\<open>AgentResult.success\<close> and \<open>AgentResult.fail\<close>\<close>

definition success ::
  "agent_name \<Rightarrow> string \<Rightarrow> payload option \<Rightarrow> string list option \<Rightarrow> AgentResult" where
  "success a j p ws =
     \<lparr>ok = True, agent = a, job_id = j,
      payload = (case p of None \<Rightarrow> empty_payload | Some p' \<Rightarrow> p'),
      warnings = (case ws of None \<Rightarrow> [] | Some ws' \<Rightarrow> ws'),
      error = None\<rparr>"

definition fail :: "agent_name \<Rightarrow> string \<Rightarrow> string \<Rightarrow> string option \<Rightarrow> AgentResult" where
  "fail a j m d =
     \<lparr>ok = False, agent = a, job_id = j, payload = empty_payload, warnings = [],
      error = Some \<lparr>message = m, err_detail = d\<rparr>\<rparr>"

section \<open>orchestrator.py\<close>

subsection \<open>The contexts handed to the agents\<close>

record ctx =
  manual_text :: string
  goal :: string
  csv_path :: "string option"
  ctx_preview_rows :: int
  extra_instructions :: string
  ctx_template_cfg :: template_cfg

record ctx2 = ctx +
  theory_text :: string
  research_facts :: "(string, json) dict"
  data_summary :: "(string, json) dict"
  data_highlights :: "(string, json) dict"

record reviewer_ctx =
  rc_report_text :: string
  rc_template_cfg :: template_cfg

record diagram_ctx =
  dc_theory_text :: string
  dc_data_summary :: "(string, json) dict"
  dc_template_cfg :: template_cfg

subsection \<open>The agents, the callbacks and the trace\<close>

text \<open>
  The agents call a text generator and the callbacks read and write the job store, so
  each of them is a function of the state \<open>'w\<close> of the world that returns the new state
  with its result. \<open>env\<close> holds the five \<open>run\<close> functions the orchestrator imports.
\<close>

record 'w env =
  research_run :: "string \<Rightarrow> ctx \<Rightarrow> 'w \<Rightarrow> AgentResult \<times> 'w"
  data_run :: "string \<Rightarrow> ctx \<Rightarrow> 'w \<Rightarrow> AgentResult \<times> 'w"
  writer_run :: "string \<Rightarrow> ctx2 \<Rightarrow> 'w \<Rightarrow> AgentResult \<times> 'w"
  reviewer_run :: "string \<Rightarrow> reviewer_ctx \<Rightarrow> 'w \<Rightarrow> AgentResult \<times> 'w"
  diagram_run :: "string \<Rightarrow> diagram_ctx \<Rightarrow> 'w \<Rightarrow> AgentResult \<times> 'w"

text \<open>The arguments of \<open>run_pipeline\<close>; an absent \<open>template_cfg\<close> is the empty one.\<close>

record 'w pipeline_args =
  a_job_id :: string
  a_manual_text :: string
  a_goal :: string
  a_csv_path :: "string option"
  a_extra_instructions :: string
  a_template_cfg :: template_cfg
  a_include_review :: bool
  progress_cb :: "(string \<Rightarrow> nat \<Rightarrow> 'w \<Rightarrow> 'w) option"
  should_cancel :: "('w \<Rightarrow> bool \<times> 'w) option"

text \<open>
  The places where \<open>run_pipeline\<close> calls an agent, and what a run does that can be seen
  from outside: it asks the cancellation predicate (with the answer), reports progress,
  and calls an agent (with the result).
\<close>

datatype step =
    StepResearch | StepData | StepWrite | StepWriteRepair | StepReview | StepDiagram
  | StepQualityFix

datatype event =
    CancelCheck bool
  | Progress string nat
  | Invoke step AgentResult

text \<open>
  A computation returns its value or the exception it raises, the new state of the world
  and the events it produced, in order.
\<close>

type_synonym ('w, 'a) comp = "'w \<Rightarrow> (exn + 'a) \<times> 'w \<times> event list"

definition returnM :: "'a \<Rightarrow> ('w, 'a) comp" where
  "returnM x = (\<lambda>w. (Inr x, w, []))"

definition raiseM :: "exn \<Rightarrow> ('w, 'a) comp" where
  "raiseM e = (\<lambda>w. (Inl e, w, []))"

definition bindM :: "('w, 'a) comp \<Rightarrow> ('a \<Rightarrow> ('w, 'b) comp) \<Rightarrow> ('w, 'b) comp" where
  "bindM m f = (\<lambda>w.
     case m w of
       (Inl e, w1, t1) \<Rightarrow> (Inl e, w1, t1)
     | (Inr x, w1, t1) \<Rightarrow> (case f x w1 of (r, w2, t2) \<Rightarrow> (r, w2, t1 @ t2)))"

definition liftE :: "exn + 'a \<Rightarrow> ('w, 'a) comp" where
  "liftE r = (case r of Inl e \<Rightarrow> raiseM e | Inr x \<Rightarrow> returnM x)"

text \<open>\<open>_check_cancel\<close>\<close>

definition check_cancel :: "'w pipeline_args \<Rightarrow> ('w, unit) comp" where
  "check_cancel args = (\<lambda>w.
     case should_cancel args of
       None \<Rightarrow> (Inr (), w, [])
     | Some p \<Rightarrow>
         (case p w of
            (True, w1) \<Rightarrow> (Inl (CancelledError ''Job canceled by user.''), w1, [CancelCheck True])
          | (False, w1) \<Rightarrow> (Inr (), w1, [CancelCheck False])))"

text \<open>\<open>if progress_cb: progress_cb(name, {"progress_pct": pct})\<close>\<close>

definition progress :: "'w pipeline_args \<Rightarrow> string \<Rightarrow> nat \<Rightarrow> ('w, unit) comp" where
  "progress args name pct = (\<lambda>w.
     case progress_cb args of
       None \<Rightarrow> (Inr (), w, [])
     | Some cb \<Rightarrow> (Inr (), cb name pct w, [Progress name pct]))"

definition invoke :: "step \<Rightarrow> ('w \<Rightarrow> AgentResult \<times> 'w) \<Rightarrow> ('w, AgentResult) comp" where
  "invoke s run = (\<lambda>w. case run w of (r, w1) \<Rightarrow> (Inr r, w1, [Invoke s r]))"

subsection \<open>The helpers\<close>

definition merge_instructions :: "template_cfg \<Rightarrow> string \<Rightarrow> string" where
  "merge_instructions cfg extra =
     (let template_instructions = strip (case instructions cfg of None \<Rightarrow> [] | Some s \<Rightarrow> s);
          extra' = strip extra;
          merged = str_join [LF, LF] (filter (\<lambda>s. s \<noteq> []) [template_instructions, extra'])
      in strip merged)"

definition repair_prompt :: "string list \<Rightarrow> template_cfg \<Rightarrow> string" where
  "repair_prompt missing_headers cfg =
     (let required = writer_format cfg;
          required_list = (if required \<noteq> [] then str_join '', '' (map (\<lambda>h. h @ '':'') required)
                           else ''(none)'');
          missing_list = str_join '', '' (map (\<lambda>h. h @ '':'') missing_headers)
      in ''IMPORTANT FIX PASS:'' @ [LF]
         @ ''- Your previous output is missing required sections: '' @ missing_list @ [LF]
         @ ''- You MUST output the full report again using ALL required headers exactly.'' @ [LF]
         @ ''- Required headers are: '' @ required_list @ [LF]
         @ ''- Do not add extra headers.'' @ [LF]
         @ ''- Keep the content consistent; only restructure/expand to include missing sections.''
         @ [LF]
         @ ''- Keep it clean and submission-ready.'' @ [LF])"

text \<open>
  \<open>raise RuntimeError(f"[name] {r.error.message}: {r.error.detail}")\<close>; reading
  \<open>.message\<close> of an error that is \<open>None\<close> raises \<open>AttributeError\<close>.
\<close>

definition str_opt :: "string option \<Rightarrow> string" where
  "str_opt d = (case d of None \<Rightarrow> ''None'' | Some s \<Rightarrow> s)"

definition step_error :: "string \<Rightarrow> AgentResult \<Rightarrow> exn" where
  "step_error name r =
     (case error r of
        None \<Rightarrow> AttributeError (CHR 0x27 # ''NoneType'' @ [CHR 0x27]
                   @ '' object has no attribute '' @ CHR 0x27 # ''message'' @ [CHR 0x27])
      | Some e \<Rightarrow> RuntimeError (''['' @ name @ ''] '' @ message e @ '': '' @ str_opt (err_detail e)))"

text \<open>
  \<open>[h for h in required_headers if not (sections.get(h) or "").strip()]\<close>
\<close>

definition missing_sections :: "string list \<Rightarrow> (string, string) dict \<Rightarrow> string list" where
  "missing_sections required_headers sections =
     filter (\<lambda>h. strip (get_or_empty sections h) = []) required_headers"

text \<open>
  What both the repair pass and the quality-fix pass do with the result \<open>w\<close> of the
  second call of the writer: \<open>if w.ok and w.payload.get("report_text")\<close>, its text and
  its sections replace the current ones.
\<close>

definition accept_rewrite ::
  "AgentResult \<Rightarrow> string \<times> (string, string) dict \<Rightarrow> string \<times> (string, string) dict" where
  "accept_rewrite w cur =
     (case p_report_text (payload w) of
        None \<Rightarrow> cur
      | Some t \<Rightarrow>
          if ok w \<and> t \<noteq> [] then (t, case p_sections (payload w) of None \<Rightarrow> [] | Some s \<Rightarrow> s)
          else cur)"

subsection \<open>The steps of \<open>run_pipeline\<close>, as the source numbers them\<close>

text \<open>1) Research\<close>

definition research_phase :: "'w env \<Rightarrow> 'w pipeline_args \<Rightarrow> ctx \<Rightarrow> ('w, AgentResult) comp" where
  "research_phase env args c =
     bindM (check_cancel args) (\<lambda>_.
     bindM (progress args ''research'' 20) (\<lambda>_.
     bindM (invoke StepResearch (research_run env (a_job_id args) c)) (\<lambda>r1.
     if \<not> ok r1 then raiseM (step_error ''research'' r1) else returnM r1)))"

text \<open>2) Data\<close>

definition data_phase :: "'w env \<Rightarrow> 'w pipeline_args \<Rightarrow> ctx \<Rightarrow> ('w, AgentResult) comp" where
  "data_phase env args c =
     bindM (check_cancel args) (\<lambda>_.
     bindM (progress args ''data'' 35) (\<lambda>_.
     bindM (invoke StepData (data_run env (a_job_id args) c)) (\<lambda>d1.
     if \<not> ok d1 then raiseM (step_error ''data'' d1) else returnM d1)))"

text \<open>3) Writer\<close>

definition writer_phase :: "'w env \<Rightarrow> 'w pipeline_args \<Rightarrow> ctx2 \<Rightarrow> ('w, AgentResult) comp" where
  "writer_phase env args c2 =
     bindM (check_cancel args) (\<lambda>_.
     bindM (progress args ''writer'' 55) (\<lambda>_.
     bindM (invoke StepWrite (writer_run env (a_job_id args) c2)) (\<lambda>w1.
     if \<not> ok w1 then raiseM (step_error ''writer'' w1) else returnM w1)))"

text \<open>3b) Section-based missing detection and one repair\<close>

definition repair_phase ::
  "'w env \<Rightarrow> 'w pipeline_args \<Rightarrow> ctx2 \<Rightarrow> string \<Rightarrow> string \<times> (string, string) dict
     \<Rightarrow> ('w, string \<times> (string, string) dict) comp" where
  "repair_phase env args c2 merged_instructions cur =
     (let template_cfg = a_template_cfg args;
          required_headers = writer_format template_cfg;
          missing = missing_sections required_headers (snd cur)
      in if required_headers \<noteq> [] \<and> missing \<noteq> [] then
           bindM (check_cancel args) (\<lambda>_.
           bindM (progress args ''writer_repair'' 65) (\<lambda>_.
           let fix_instructions = repair_prompt missing template_cfg;
               ctx_fix = c2\<lparr>extra_instructions :=
                 strip (merged_instructions @ [LF, LF] @ fix_instructions)\<rparr>
           in bindM (invoke StepWriteRepair (writer_run env (a_job_id args) ctx_fix)) (\<lambda>w2.
              returnM (accept_rewrite w2 cur))))
         else returnM cur)"

text \<open>4) Reviewer; the status is \<open>None\<close> for \<open>{"skipped": True}\<close>.\<close>

definition review_phase ::
  "'w env \<Rightarrow> 'w pipeline_args \<Rightarrow> string \<Rightarrow> ('w, string \<times> AgentResult option) comp" where
  "review_phase env args report_text =
     (let template_cfg = a_template_cfg args
      in if a_include_review args \<and> (include_review template_cfg = Some True) then
           bindM (check_cancel args) (\<lambda>_.
           bindM (progress args ''reviewer'' 75) (\<lambda>_.
           bindM (invoke StepReview (reviewer_run env (a_job_id args)
                    \<lparr>rc_report_text = report_text, rc_template_cfg = template_cfg\<rparr>)) (\<lambda>rv.
           returnM (if ok rv then (case p_review_text (payload rv) of None \<Rightarrow> [] | Some t \<Rightarrow> t)
                    else [], Some rv))))
         else returnM ([], None))"

text \<open>5) Figures: \<open>template_cfg.get("include_figures", True) and data_summary\<close>\<close>

definition diagram_phase ::
  "'w env \<Rightarrow> 'w pipeline_args \<Rightarrow> string \<Rightarrow> (string, json) dict
     \<Rightarrow> ('w, string \<times> AgentResult option) comp" where
  "diagram_phase env args theory data_sum =
     (let template_cfg = a_template_cfg args
      in if (case include_figures template_cfg of None \<Rightarrow> True | Some b \<Rightarrow> b) \<and> data_sum \<noteq> [] then
           bindM (check_cancel args) (\<lambda>_.
           bindM (progress args ''diagram'' 85) (\<lambda>_.
           bindM (invoke StepDiagram (diagram_run env (a_job_id args)
                    \<lparr>dc_theory_text = theory, dc_data_summary = data_sum,
                     dc_template_cfg = template_cfg\<rparr>)) (\<lambda>dg.
           returnM (if ok dg then (case p_figures_text (payload dg) of None \<Rightarrow> [] | Some t \<Rightarrow> t)
                    else [], Some dg))))
         else returnM ([], None))"

text \<open>6) Quality gate and one fix\<close>

definition quality_phase ::
  "'w env \<Rightarrow> 'w pipeline_args \<Rightarrow> ctx2 \<Rightarrow> string \<Rightarrow> string \<times> (string, string) dict
     \<Rightarrow> ('w, (string \<times> (string, string) dict) \<times> quality_report) comp" where
  "quality_phase env args c2 merged_instructions cur =
     (let template_cfg = a_template_cfg args
      in bindM (liftE (evaluate_report_quality (fst cur) template_cfg)) (\<lambda>quality.
         if \<not> q_ok quality then
           bindM (progress args ''quality_fix'' 88) (\<lambda>_.
           let fix_instructions = build_quality_fix_prompt (q_issues quality) template_cfg;
               ctx_q = c2\<lparr>extra_instructions :=
                 strip (merged_instructions @ [LF, LF] @ fix_instructions)\<rparr>
           in bindM (invoke StepQualityFix (writer_run env (a_job_id args) ctx_q)) (\<lambda>wq.
              let cur' = accept_rewrite wq cur
              in bindM (liftE (evaluate_report_quality (fst cur') template_cfg)) (\<lambda>quality'.
                 returnM (cur', quality'))))
         else returnM (cur, quality)))"

text \<open>
  The dictionary \<open>run_pipeline\<close> returns. The wall-clock timings of \<open>timings_ms\<close> are
  left out.
\<close>

record pipeline_out =
  out_theory :: string
  out_research_facts :: "(string, json) dict"
  out_data_summary :: "(string, json) dict"
  out_data_highlights :: "(string, json) dict"
  out_report :: string
  out_review :: string
  out_figures :: string
  out_report_sections :: "(string, string) dict"
  out_quality :: quality_report
  status_research :: AgentResult
  status_data :: AgentResult
  status_writer :: AgentResult
  status_reviewer :: "AgentResult option"
  status_diagram :: "AgentResult option"

definition get_or :: "'a \<Rightarrow> 'a option \<Rightarrow> 'a" where
  "get_or d x = (case x of None \<Rightarrow> d | Some v \<Rightarrow> v)"

text \<open>
  Steps 3b to 6 and the result, from the results \<open>r1\<close>, \<open>d1\<close> and \<open>w1\<close> of research,
  data and the first write.
\<close>

definition after_writer ::
  "'w env \<Rightarrow> 'w pipeline_args \<Rightarrow> AgentResult \<Rightarrow> AgentResult \<Rightarrow> AgentResult \<Rightarrow> ctx2 \<Rightarrow> string
     \<Rightarrow> ('w, pipeline_out) comp" where
  "after_writer env args r1 d1 w1 c2 merged_instructions =
     (let theory = get_or [] (p_theory_text (payload r1));
          facts = get_or [] (p_research_facts (payload r1));
          data_sum = get_or [] (p_data_summary (payload d1));
          highlights = get_or [] (p_data_highlights (payload d1));
          report_text = get_or [] (p_report_text (payload w1));
          sections = get_or [] (p_sections (payload w1))
      in bindM (repair_phase env args c2 merged_instructions (report_text, sections)) (\<lambda>cur.
         bindM (review_phase env args (fst cur)) (\<lambda>(review_text, reviewer_status).
         bindM (diagram_phase env args theory data_sum) (\<lambda>(figures_text, diagram_status).
         bindM (quality_phase env args c2 merged_instructions cur) (\<lambda>(cur', quality).
         returnM \<lparr>out_theory = theory, out_research_facts = facts,
           out_data_summary = data_sum, out_data_highlights = highlights,
           out_report = fst cur', out_review = review_text, out_figures = figures_text,
           out_report_sections = snd cur', out_quality = quality,
           status_research = r1, status_data = d1, status_writer = w1,
           status_reviewer = reviewer_status, status_diagram = diagram_status\<rparr>)))))"

definition run_pipeline :: "'w env \<Rightarrow> 'w pipeline_args \<Rightarrow> ('w, pipeline_out) comp" where
  "run_pipeline env args =
     (let template_cfg = a_template_cfg args;
          merged_instructions = merge_instructions template_cfg (a_extra_instructions args);
          c = \<lparr>manual_text = a_manual_text args, goal = a_goal args, csv_path = a_csv_path args,
               ctx_preview_rows = get_or 10 (preview_rows template_cfg),
               extra_instructions = merged_instructions, ctx_template_cfg = template_cfg\<rparr>
      in bindM (research_phase env args c) (\<lambda>r1.
         bindM (data_phase env args c) (\<lambda>d1.
         let c2 = ctx.extend c
                    \<lparr>theory_text = get_or [] (p_theory_text (payload r1)),
                     research_facts = get_or [] (p_research_facts (payload r1)),
                     data_summary = get_or [] (p_data_summary (payload d1)),
                     data_highlights = get_or [] (p_data_highlights (payload d1))\<rparr>
         in bindM (writer_phase env args c2) (\<lambda>w1.
            after_writer env args r1 d1 w1 c2 merged_instructions))))"

section \<open>Reading a trace\<close>

text \<open>The calls of agents in a trace, in order, each with the result it returned.\<close>

definition invoked :: "event list \<Rightarrow> (step \<times> AgentResult) list" where
  "invoked tr = concat (map (\<lambda>e. case e of Invoke s r \<Rightarrow> [(s, r)] | _ \<Rightarrow> []) tr)"

text \<open>The calls of the writer among them: the first write, the repair, the quality fix.\<close>

definition writing_steps :: "event list \<Rightarrow> step list" where
  "writing_steps tr =
     filter (\<lambda>s. s = StepWrite \<or> s = StepWriteRepair \<or> s = StepQualityFix) (map fst (invoked tr))"

text \<open>
  The events after which \<open>run_pipeline\<close> raises: the cancellation predicate has answered
  yes, or research, data or the first write has returned a failure. A trace that ends
  with such an event is the trace of an aborted run.
\<close>

definition fatal :: "event \<Rightarrow> bool" where
  "fatal e =
     (case e of
        CancelCheck b \<Rightarrow> b
      | Progress _ _ \<Rightarrow> False
      | Invoke s r \<Rightarrow> (s = StepResearch \<or> s = StepData \<or> s = StepWrite) \<and> \<not> ok r)"

definition aborted :: "event list \<Rightarrow> bool" where
  "aborted tr \<longleftrightarrow> tr \<noteq> [] \<and> fatal (last tr)"

text \<open>Events that are neither a call of an agent nor a cancellation.\<close>

definition quiet :: "event list \<Rightarrow> bool" where
  "quiet tr \<longleftrightarrow> list_all (\<lambda>e. case e of CancelCheck b \<Rightarrow> \<not> b | Progress _ _ \<Rightarrow> True | Invoke _ _ \<Rightarrow> False) tr"

definition step_name :: "step \<Rightarrow> string" where
  "step_name s =
     (case s of
        StepResearch \<Rightarrow> ''research'' | StepData \<Rightarrow> ''data'' | StepWrite \<Rightarrow> ''writer''
      | StepWriteRepair \<Rightarrow> ''writer_repair'' | StepReview \<Rightarrow> ''reviewer''
      | StepDiagram \<Rightarrow> ''diagram'' | StepQualityFix \<Rightarrow> ''quality_fix'')"

text \<open>
  The steps that are called in a trace without the cancellation predicate having been
  asked since the previous call; \<open>asked\<close> says whether it has been asked at the start.
\<close>

fun unchecked_steps :: "bool \<Rightarrow> event list \<Rightarrow> step list" where
  "unchecked_steps asked [] = []"
| "unchecked_steps asked (e # t) =
     (case e of
        CancelCheck b \<Rightarrow> unchecked_steps True t
      | Progress n k \<Rightarrow> unchecked_steps asked t
      | Invoke s r \<Rightarrow> (if asked then [] else [s]) @ unchecked_steps False t)"

text \<open>A trace in which no step other than the quality-fix write is called unasked.\<close>

definition unasked_only_quality_fix :: "event list \<Rightarrow> bool" where
  "unasked_only_quality_fix t \<longleftrightarrow>
     list_all (\<lambda>s. s = StepQualityFix) (unchecked_steps False t)
     \<and> list_all (\<lambda>s. s = StepQualityFix) (unchecked_steps True t)"

section \<open>The agents\<close>

text \<open>
  The body of an agent's \<open>run\<close> is one \<open>try\<close> block: a computation that returns a value
  or raises. The clause \<open>except Exception as e\<close> turns whatever it raises into the value
  of the handler. \<open>chat\<close> is the call of the text generator (\<open>utils.llm.chat\<close>), which
  returns text or raises; \<open>dumps\<close> is \<open>json.dumps(_, indent=2)\<close>.
\<close>

type_synonym ('w, 'a) try_block = "'w \<Rightarrow> (exn + 'a) \<times> 'w"

definition try_except :: "('w, 'a) try_block \<Rightarrow> (exn \<Rightarrow> 'a) \<Rightarrow> 'w \<Rightarrow> 'a \<times> 'w" where
  "try_except body handler = (\<lambda>w.
     case body w of (Inl e, w1) \<Rightarrow> (handler e, w1) | (Inr r, w1) \<Rightarrow> (r, w1))"

text \<open>\<open>type(e).__name__\<close> and \<open>str(e)\<close>; the message of a \<open>KeyError\<close> is its key in quotes.\<close>

definition exn_class :: "exn \<Rightarrow> string" where
  "exn_class e =
     (case e of
        KeyError _ \<Rightarrow> ''KeyError''
      | AttributeError _ \<Rightarrow> ''AttributeError''
      | RuntimeError _ \<Rightarrow> ''RuntimeError''
      | CancelledError _ \<Rightarrow> ''CancelledError''
      | LLMError _ \<Rightarrow> ''LLMError''
      | OtherError c _ \<Rightarrow> c)"

definition exn_str :: "exn \<Rightarrow> string" where
  "exn_str e =
     (case e of
        KeyError k \<Rightarrow> CHR 0x27 # k @ [CHR 0x27]
      | AttributeError m \<Rightarrow> m
      | RuntimeError m \<Rightarrow> m
      | CancelledError m \<Rightarrow> m
      | LLMError m \<Rightarrow> m
      | OtherError _ m \<Rightarrow> m)"

definition failure_detail :: "exn \<Rightarrow> string option" where
  "failure_detail e = Some (exn_class e @ '': '' @ exn_str e)"

subsection \<open>agents/writer\_agent.py\<close>

definition writer_build_system :: "template_cfg \<Rightarrow> string" where
  "writer_build_system cfg =
     (let template_name = get_or ''Report'' (display_name cfg);
          format_note =
            (if writer_format cfg \<noteq> [] then
               ''STRICT FORMAT (use these exact headers, each on its own line, exactly as written):''
               @ [LF] @ str_join [LF] (map (\<lambda>h. h @ '':'') (writer_format cfg)) @ [LF]
             else ''STRUCTURE: Use clear section headers appropriate for the template.'' @ [LF]);
          rules_block =
            (if writer_rules cfg \<noteq> [] then
               ''Rules:'' @ [LF] @ str_join [LF] (map (\<lambda>r. ''- '' @ r) (writer_rules cfg)) @ [LF]
             else [])
      in strip (
         ''You are a helpful, high-quality writer producing a submission-ready document.'' @ [LF]
         @ ''Write in a clear, natural student tone (not AI-sounding).'' @ [LF]
         @ [LF]
         @ ''Template: '' @ template_name @ [LF]
         @ [LF]
         @ format_note @ [LF]
         @ rules_block @ [LF]
         @ ''General rules:'' @ [LF]
         @ ''- Use plain text headers exactly (no bold, no markdown).'' @ [LF]
         @ ''- Do not invent facts, equipment models, settings, or numbers not supported by the provided manual_text or data summary.'' @ [LF]
         @ ''- If details are missing, label them as assumptions explicitly.'' @ [LF]
         @ ''- Keep the writing clean and submission-ready.'' @ [LF]))"

definition writer_user_prompt :: "string \<Rightarrow> string \<Rightarrow> string \<Rightarrow> string \<Rightarrow> string \<Rightarrow> string" where
  "writer_user_prompt theory facts_json summary_json highlights_json extra =
     ''THEORY / NOTES EXTRACT:'' @ [LF]
     @ theory @ [LF]
     @ [LF]
     @ ''STRUCTURED RESEARCH FACTS (JSON):'' @ [LF]
     @ facts_json @ [LF]
     @ [LF]
     @ ''DATA SUMMARY (JSON):'' @ [LF]
     @ summary_json @ [LF]
     @ [LF]
     @ ''DATA HIGHLIGHTS (JSON):'' @ [LF]
     @ highlights_json @ [LF]
     @ [LF]
     @ ''EXTRA INSTRUCTIONS:'' @ [LF]
     @ extra @ [LF]
     @ [LF]
     @ ''Prefer the structured facts/highlights when available, and use full data summary for supporting detail.'' @ [LF]
     @ ''Write the full document now following the required headers exactly.''"

definition writer_try ::
  "(string \<Rightarrow> string \<Rightarrow> ('w, string) try_block) \<Rightarrow> ((string, json) dict \<Rightarrow> exn + string)
     \<Rightarrow> string \<Rightarrow> ctx2 \<Rightarrow> ('w, AgentResult) try_block" where
  "writer_try chat dumps job c = (\<lambda>w.
     let template_cfg = ctx_template_cfg c;
         system = writer_build_system template_cfg
     in case dumps (research_facts c) of
          Inl e \<Rightarrow> (Inl e, w)
        | Inr facts_json \<Rightarrow>
       (case dumps (data_summary c) of
          Inl e \<Rightarrow> (Inl e, w)
        | Inr summary_json \<Rightarrow>
       (case dumps (data_highlights c) of
          Inl e \<Rightarrow> (Inl e, w)
        | Inr highlights_json \<Rightarrow>
       (case chat system
               (writer_user_prompt (theory_text c) facts_json summary_json highlights_json
                  (extra_instructions c)) w of
          (Inl e, w1) \<Rightarrow> (Inl e, w1)
        | (Inr report_text, w1) \<Rightarrow>
            (case (if writer_format template_cfg \<noteq> []
                   then split_by_headers report_text (writer_format template_cfg) else Inr []) of
               Inl e \<Rightarrow> (Inl e, w1)
             | Inr sections \<Rightarrow>
                 (Inr (success Writer job
                    (Some (empty_payload\<lparr>p_report_text := Some report_text,
                                          p_sections := Some sections\<rparr>)) None), w1))))))"

definition writer_agent_run ::
  "(string \<Rightarrow> string \<Rightarrow> ('w, string) try_block) \<Rightarrow> ((string, json) dict \<Rightarrow> exn + string)
     \<Rightarrow> string \<Rightarrow> ctx2 \<Rightarrow> 'w \<Rightarrow> AgentResult \<times> 'w" where
  "writer_agent_run chat dumps job c =
     try_except (writer_try chat dumps job c)
       (\<lambda>e. fail Writer job ''Writer agent failed'' (failure_detail e))"

subsection \<open>agents/reviewer\_agent.py\<close>

definition reviewer_build_system :: "template_cfg \<Rightarrow> string" where
  "reviewer_build_system cfg =
     strip (
       ''You are a careful reviewer.'' @ [LF]
       @ [LF]
       @ ''Task:'' @ [LF]
       @ ''- Review the report and return concise reviewer feedback for the student.'' @ [LF]
       @ ''- Do not rewrite the report itself.'' @ [LF]
       @ ''- Do not invent facts or numbers.'' @ [LF]
       @ ''- Point out missing information explicitly.'' @ [LF]
       @ ''- Keep feedback practical and specific.'' @ [LF]
       @ [LF]
       @ ''Return format (plain text only):'' @ [LF]
       @ ''Strengths:'' @ [LF]
       @ ''- ...'' @ [LF]
       @ [LF]
       @ ''Issues to fix:'' @ [LF]
       @ ''- ...'' @ [LF]
       @ [LF]
       @ ''Suggested edits:'' @ [LF]
       @ ''- ...'' @ [LF]
       @ [LF]
       @ ''Template: '' @ get_or ''Report'' (display_name cfg) @ [LF])"

definition reviewer_try ::
  "(string \<Rightarrow> string \<Rightarrow> ('w, string) try_block) \<Rightarrow> string \<Rightarrow> reviewer_ctx
     \<Rightarrow> ('w, AgentResult) try_block" where
  "reviewer_try chat job c = (\<lambda>w.
     let template_cfg = rc_template_cfg c;
         report_text = rc_report_text c
     in if strip report_text = [] then
          (Inr (fail Reviewer job ''No report provided to reviewer'' None), w)
        else
          (case chat (reviewer_build_system template_cfg)
                  (''REPORT TO REVIEW:'' @ [LF] @ report_text @ [LF] @ [LF]
                   @ ''Return reviewer feedback now.'') w of
             (Inl e, w1) \<Rightarrow> (Inl e, w1)
           | (Inr feedback, w1) \<Rightarrow>
               (Inr (success Reviewer job
                  (Some (empty_payload\<lparr>p_review_text := Some feedback\<rparr>)) None), w1)))"

definition reviewer_agent_run ::
  "(string \<Rightarrow> string \<Rightarrow> ('w, string) try_block) \<Rightarrow> string \<Rightarrow> reviewer_ctx
     \<Rightarrow> 'w \<Rightarrow> AgentResult \<times> 'w" where
  "reviewer_agent_run chat job c =
     try_except (reviewer_try chat job c)
       (\<lambda>e. fail Reviewer job ''Reviewer agent failed'' (failure_detail e))"

subsection \<open>agents/diagram\_agent.py\<close>

definition diagram_build_system :: "template_cfg \<Rightarrow> string" where
  "diagram_build_system cfg =
     strip (
       ''You suggest helpful figures/plots/diagrams to include in a report.'' @ [LF]
       @ [LF]
       @ ''Template: '' @ get_or ''Report'' (display_name cfg) @ [LF]
       @ [LF]
       @ ''Rules:'' @ [LF]
       @ ''- Suggest 3-5 figures maximum.'' @ [LF]
       @ ''- Do NOT invent experimental apparatus details.'' @ [LF]
       @ ''- If a CSV/data_summary exists, prioritize plots derived from it (e.g., time-series, histogram, box plot).'' @ [LF]
       @ ''- Keep suggestions generic and applicable; do not hardcode numbers from a single dataset.'' @ [LF]
       @ ''- Output plain text (no markdown), with clear titles and 1-2 sentences each explaining why it helps.'' @ [LF])"

definition diagram_try ::
  "(string \<Rightarrow> string \<Rightarrow> ('w, string) try_block) \<Rightarrow> ((string, json) dict \<Rightarrow> exn + string)
     \<Rightarrow> string \<Rightarrow> diagram_ctx \<Rightarrow> ('w, AgentResult) try_block" where
  "diagram_try chat dumps job c = (\<lambda>w.
     case dumps (dc_data_summary c) of
       Inl e \<Rightarrow> (Inl e, w)
     | Inr summary_json \<Rightarrow>
         (case chat (diagram_build_system (dc_template_cfg c))
                 (''THEORY / NOTES:'' @ [LF] @ dc_theory_text c @ [LF] @ [LF]
                  @ ''DATA SUMMARY (JSON):'' @ [LF] @ summary_json @ [LF] @ [LF]
                  @ ''Suggest figures now.'') w of
            (Inl e, w1) \<Rightarrow> (Inl e, w1)
          | (Inr figures, w1) \<Rightarrow>
              (Inr (success Diagram job
                 (Some (empty_payload\<lparr>p_figures_text := Some figures\<rparr>)) None), w1)))"

definition diagram_agent_run ::
  "(string \<Rightarrow> string \<Rightarrow> ('w, string) try_block) \<Rightarrow> ((string, json) dict \<Rightarrow> exn + string)
     \<Rightarrow> string \<Rightarrow> diagram_ctx \<Rightarrow> 'w \<Rightarrow> AgentResult \<times> 'w" where
  "diagram_agent_run chat dumps job c =
     try_except (diagram_try chat dumps job c)
       (\<lambda>e. fail Diagram job ''Diagram agent failed'' (failure_detail e))"

subsection \<open>agents/research\_agent.py\<close>

definition research_SYSTEM :: string where
  "research_SYSTEM =
     ''You extract and summarize theory/notes from the provided manual text.'' @ [LF]
     @ [LF]
     @ ''Rules:'' @ [LF]
     @ ''- Only use what the user provided in manual_text.'' @ [LF]
     @ ''- If information is missing, list it under '' @ [CHR 0x22]
     @ ''Missing Info / Clarifications Needed'' @ [CHR 0x22] @ ''.'' @ [LF]
     @ ''- Keep it structured and detailed.'' @ [LF]
     @ ''- Preserve broad topic coverage from the source (do not collapse many topics into a few bullets).'' @ [LF]
     @ ''- Prefer specific, content-rich bullets over generic summaries.'' @ [LF]
     @ [LF]
     @ ''Return format:'' @ [LF]
     @ ''Key Concepts:'' @ [LF]
     @ ''Variables & Units:'' @ [LF]
     @ ''Equations/Models:'' @ [LF]
     @ ''Procedure Requirements:'' @ [LF]
     @ ''Assumptions (explicitly stated in manual):'' @ [LF]
     @ ''Missing Info / Clarifications Needed:'' @ [LF]"

text \<open>\<open>s.split(";")\<close>: the pieces between the separators, the empty ones too\<close>

fun split_char_aux :: "char \<Rightarrow> string \<Rightarrow> string \<Rightarrow> string list" where
  "split_char_aux sep cur [] = [cur]"
| "split_char_aux sep cur (c # cs) =
     (if c = sep then cur # split_char_aux sep [] cs else split_char_aux sep (cur @ [c]) cs)"

definition split_list :: "string \<Rightarrow> string list" where
  "split_list block =
     concat (map (\<lambda>raw.
        let s = strip (dropWhile (\<lambda>c. c = CHR ''-'') (strip raw))
        in if s = [] then []
           else filter (\<lambda>p. p \<noteq> []) (map strip (split_char_aux CHR '';'' [] s)))
      (splitlines block))"

definition research_sections :: "(string, string) dict" where
  "research_sections =
     [(''key_concepts'', ''Key Concepts:''),
      (''variables_units'', ''Variables & Units:''),
      (''equations_models'', ''Equations/Models:''),
      (''procedure_requirements'', ''Procedure Requirements:''),
      (''assumptions'', ''Assumptions (explicitly stated in manual):''),
      (''missing_info'', ''Missing Info / Clarifications Needed:'')]"

fun research_loop ::
  "string option \<Rightarrow> (string, string) dict \<Rightarrow> string list \<Rightarrow> (string, string) dict" where
  "research_loop current found [] = found"
| "research_loop current found (line # rest) =
     (case find (\<lambda>(k, header). lower (strip line) = lower header) research_sections of
        Some (k, _) \<Rightarrow> research_loop (Some k) found rest
      | None \<Rightarrow>
          (case current of
             None \<Rightarrow> research_loop None found rest
           | Some cur \<Rightarrow>
               research_loop current
                 (dict_set found cur (get_or_empty found cur @ line @ [LF])) rest))"

definition extract_research_facts :: "string \<Rightarrow> (string, json) dict" where
  "extract_research_facts theory =
     (let found = research_loop None (map (\<lambda>(k, _). (k, [])) research_sections)
                    (splitlines theory)
      in map (\<lambda>(k, _). (k, JList (map JStr (split_list (get_or_empty found k)))))
           research_sections)"

definition research_try ::
  "(string \<Rightarrow> string \<Rightarrow> ('w, string) try_block) \<Rightarrow> string \<Rightarrow> ctx \<Rightarrow> ('w, AgentResult) try_block" where
  "research_try chat job c = (\<lambda>w.
     case chat research_SYSTEM
            (''GOAL:'' @ [LF] @ strip (goal c) @ [LF] @ [LF]
             @ ''MANUAL / NOTES TEXT:'' @ [LF] @ strip (manual_text c) @ [LF] @ [LF]
             @ ''Extract the structured theory now.'') w of
       (Inl e, w1) \<Rightarrow> (Inl e, w1)
     | (Inr theory, w1) \<Rightarrow>
         (Inr (success Research job
            (Some (empty_payload\<lparr>p_theory_text := Some theory,
               p_research_facts := Some (extract_research_facts theory)\<rparr>)) None), w1))"

definition research_agent_run ::
  "(string \<Rightarrow> string \<Rightarrow> ('w, string) try_block) \<Rightarrow> string \<Rightarrow> ctx \<Rightarrow> 'w \<Rightarrow> AgentResult \<times> 'w" where
  "research_agent_run chat job c =
     try_except (research_try chat job c)
       (\<lambda>e. fail Research job ''Research agent failed'' (failure_detail e))"

section \<open>agents/data\_agent.py\<close>

subsection \<open>The count of outliers\<close>

text \<open>
  A numeric column is a list of values, \<open>None\<close> for a missing one (\<open>NaN\<close>). A
  floating-point value is the real number it stands for, and \<open>q3 - q1\<close>, \<open>1.5 * iqr\<close> and
  the two fences are computed exactly, where the code rounds: for a value that lies on a
  fence, or within a rounding error of it, the count below and the count of the code can
  differ by that value. The branch for an interquartile range that is zero or undefined
  does not compute the fences. \<open>Series.quantile\<close> belongs to pandas, so
  \<open>_iqr_outlier_count\<close> takes it as the parameter \<open>quantile\<close>, which returns a value or
  \<open>NaN\<close> (\<open>None\<close>).
\<close>

type_synonym series = "real option list"

definition dropna :: "series \<Rightarrow> real list" where
  "dropna s = concat (map (\<lambda>x. case x of None \<Rightarrow> [] | Some v \<Rightarrow> [v]) s)"

text \<open>\<open>iqr = q3 - q1\<close>, which is \<open>NaN\<close> when a quartile is\<close>

definition column_iqr :: "(real list \<Rightarrow> real \<Rightarrow> real option) \<Rightarrow> series \<Rightarrow> real option" where
  "column_iqr quantile s0 =
     (let s = dropna s0
      in case (quantile s (1 / 4), quantile s (3 / 4)) of
           (Some q1, Some q3) \<Rightarrow> Some (q3 - q1)
         | _ \<Rightarrow> None)"

definition iqr_outlier_count :: "(real list \<Rightarrow> real \<Rightarrow> real option) \<Rightarrow> series \<Rightarrow> nat" where
  "iqr_outlier_count quantile s0 =
     (let s = dropna s0
      in if s = [] then 0
         else
           (case (quantile s (1 / 4), quantile s (3 / 4)) of
              (Some q1, Some q3) \<Rightarrow>
                (let iqr = q3 - q1
                 in if iqr = 0 then 0
                    else
                      (let lo = q1 - 1.5 * iqr;
                           hi = q3 + 1.5 * iqr
                       in length (filter (\<lambda>x. x < lo \<or> x > hi) s)))
            | _ \<Rightarrow> 0))"

text \<open>
  The quantile pandas computes by default (\<open>interpolation='linear'\<close>): at the position
  \<open>q * (n - 1)\<close> of the sorted values, between the two neighbours of that position.
\<close>

definition quantile_linear :: "real list \<Rightarrow> real \<Rightarrow> real option" where
  "quantile_linear xs q =
     (if xs = [] then None
      else
        (let ys = sort xs;
             pos = q * real (length ys - 1);
             i = nat \<lfloor>pos\<rfloor>;
             j = min (i + 1) (length ys - 1)
         in Some (ys ! i + (ys ! j - ys ! i) * (pos - real i))))"

subsection \<open>The run of the data agent\<close>

text \<open>
  A computation inside the \<open>try\<close> block that raises ends the block: the steps of the
  block are chained by \<open>bindE\<close>.
\<close>

definition bindE :: "exn + 'a \<Rightarrow> ('a \<Rightarrow> exn + 'b) \<Rightarrow> exn + 'b" where
  "bindE r f = (case r of Inl e \<Rightarrow> Inl e | Inr x \<Rightarrow> f x)"

text \<open>
  What the module asks of pandas and of Python's number formatting is a parameter of the
  model: a frame is a value of the type \<open>'f\<close>, and a call of pandas returns its value or
  raises. In the order of the fields: the names of the numeric columns and of all
  columns, \<open>len(df)\<close> (which is \<open>df.shape[0]\<close>), \<open>df.describe(include="all").to_dict()\<close>,
  \<open>df.head(n).to_dict(orient="records")\<close>, \<open>int(df[col].isna().sum())\<close>, the column
  \<open>df[col]\<close>, its \<open>min\<close>, \<open>max\<close>, \<open>mean\<close>, \<open>median\<close> and \<open>std\<close>, \<open>Series.quantile\<close>,
  \<open>df[numeric_columns].corr(numeric_only=True)\<close>, whose value is read by \<open>corr.loc[a, b]\<close>,
  the length of \<open>df[[x_col, y_col]].dropna()\<close> and its rows, both columns converted by
  \<open>astype(float)\<close>; then the floating-point value of \<open>(miss / len(df)) * 100.0\<close>, the text
  of a number under a format specification (\<open>f"{v:.1f}"\<close>) and \<open>str(v)\<close>.
\<close>

record 'f data_lib =
  pd_numeric_columns :: "'f \<Rightarrow> exn + string list"
  pd_columns :: "'f \<Rightarrow> exn + string list"
  pd_len :: "'f \<Rightarrow> nat"
  pd_describe :: "'f \<Rightarrow> exn + json"
  pd_head :: "'f \<Rightarrow> int \<Rightarrow> exn + json"
  pd_isna_sum :: "'f \<Rightarrow> string \<Rightarrow> exn + nat"
  pd_column :: "'f \<Rightarrow> string \<Rightarrow> exn + series"
  pd_min :: "series \<Rightarrow> exn + real option"
  pd_max :: "series \<Rightarrow> exn + real option"
  pd_mean :: "series \<Rightarrow> exn + real option"
  pd_median :: "series \<Rightarrow> exn + real option"
  pd_std :: "series \<Rightarrow> exn + real option"
  pd_quantile :: "real list \<Rightarrow> real \<Rightarrow> real option"
  pd_corr :: "'f \<Rightarrow> string list \<Rightarrow> exn + (string \<Rightarrow> string \<Rightarrow> exn + real option)"
  pd_pair_len :: "'f \<Rightarrow> string \<Rightarrow> string \<Rightarrow> exn + nat"
  pd_pair_floats :: "'f \<Rightarrow> string \<Rightarrow> string \<Rightarrow> exn + (real \<times> real) list"
  fl_percent :: "nat \<Rightarrow> nat \<Rightarrow> real"
  fmt_float :: "string \<Rightarrow> real \<Rightarrow> string"
  str_float :: "real \<Rightarrow> string"

text \<open>\<open>_safe_float\<close>: \<open>None\<close> for \<open>NaN\<close>\<close>

definition safe_float :: "real option \<Rightarrow> json" where
  "safe_float v = (case v of None \<Rightarrow> JNull | Some x \<Rightarrow> JNum x)"

text \<open>
  \<open>_detect_time_column\<close>. The dictionary \<open>lower\<close> of the source, from the lower-case names to
  the names, is \<open>lower_map\<close>.
\<close>

definition detect_time_column :: "string list \<Rightarrow> string option" where
  "detect_time_column columns =
     (let lower_map = foldl (\<lambda>d c. dict_set d (lower c) c) [] columns;
          candidates = [''time'', ''t'', ''time_s'', ''time_sec'', ''seconds'', ''timestamp'']
      in case find (\<lambda>c. dict_get lower_map c \<noteq> None) candidates of
           Some c \<Rightarrow> dict_get lower_map c
         | None \<Rightarrow> find (\<lambda>c. startswith (lower c) ''time'') columns)"

text \<open>
  \<open>_linear_trend\<close>: the empty dictionary for fewer than two rows or for a denominator that
  is zero. The sums, means and quotients are those of the real numbers, where the code
  rounds.
\<close>

definition linear_trend ::
  "'f data_lib \<Rightarrow> 'f \<Rightarrow> string \<Rightarrow> string \<Rightarrow> exn + (string, json) dict" where
  "linear_trend lib df x_col y_col =
     bindE (pd_pair_len lib df x_col y_col) (\<lambda>n.
     if n < 2 then Inr []
     else
       bindE (pd_pair_floats lib df x_col y_col) (\<lambda>pair.
       let x = map fst pair;
           y = map snd pair;
           x_mean = sum_list x / real (length x);
           y_mean = sum_list y / real (length y);
           denom = sum_list (map (\<lambda>a. (a - x_mean) ^ 2) x)
       in if denom = 0 then Inr []
          else
            (let slope = sum_list (map (\<lambda>(a, b). (a - x_mean) * (b - y_mean)) pair) / denom;
                 intercept = y_mean - slope * x_mean;
                 ss_tot = sum_list (map (\<lambda>b. (b - y_mean) ^ 2) y);
                 ss_res = sum_list (map (\<lambda>(a, b). (b - (slope * a + intercept)) ^ 2) pair);
                 r2 = (if ss_tot \<noteq> 0 then Some (1 - ss_res / ss_tot) else None)
             in Inr [(''x'', JStr x_col), (''y'', JStr y_col), (''n_used'', JInt (int n)),
                     (''slope'', safe_float (Some slope)),
                     (''intercept'', safe_float (Some intercept)),
                     (''r2'', safe_float r2)])))"

text \<open>
  Reading a dictionary as \<open>_build_data_highlights\<close> does: \<open>d.get(k) or {}\<close>,
  \<open>d.get(k) or []\<close>, \<open>float(d.get(k, 0) or 0)\<close> and a text with its default; a name between
  single quotes; and \<open>max(outliers.items(), key=lambda kv: kv[1])\<close>, the first of the items
  with the greatest count.
\<close>

definition obj_of :: "json option \<Rightarrow> (string, json) dict" where
  "obj_of v = (case v of Some (JObj d) \<Rightarrow> d | _ \<Rightarrow> [])"

definition list_of_json :: "json option \<Rightarrow> json list" where
  "list_of_json v = (case v of Some (JList l) \<Rightarrow> l | _ \<Rightarrow> [])"

definition number_of :: "json option \<Rightarrow> real" where
  "number_of v = (case v of Some (JInt n) \<Rightarrow> real_of_int n | Some (JNum x) \<Rightarrow> x | _ \<Rightarrow> 0)"

definition text_of :: "json option \<Rightarrow> string \<Rightarrow> string" where
  "text_of v d = (case v of Some (JStr s) \<Rightarrow> s | _ \<Rightarrow> d)"

definition quoted :: "string \<Rightarrow> string" where
  "quoted s = CHR 0x27 # s @ [CHR 0x27]"

definition first_max :: "(string \<times> json) list \<Rightarrow> (string \<times> real) option" where
  "first_max items =
     (case items of
        [] \<Rightarrow> None
      | (c, n) # rest \<Rightarrow>
          Some (fold (\<lambda>(c', n') best. if snd best < number_of (Some n') then (c', number_of (Some n'))
                                          else best)
                  rest (c, number_of (Some n))))"

text \<open>
  \<open>_build_data_highlights\<close>. The lists \<open>key_findings\<close> and \<open>calculations\<close> grow in the
  order of the source; \<open>findings1\<close> to \<open>findings5\<close> and \<open>calculations3\<close>, \<open>calculations4\<close>
  are what each block of the source appends.
\<close>

definition build_data_highlights :: "'f data_lib \<Rightarrow> (string, json) dict \<Rightarrow> (string, json) dict" where
  "build_data_highlights lib out =
     (let auto = obj_of (dict_get out ''auto_analysis'');
          columns = list_of_json (dict_get out ''columns'');
          numeric_columns = list_of_json (dict_get out ''numeric_columns'');
          findings1 =
            (case dict_get out ''n_total'' of
               Some (JInt n_total) \<Rightarrow>
                 [''Dataset has '' @ str_int n_total @ '' rows across ''
                  @ str_nat (length columns) @ '' columns (''
                  @ str_nat (length numeric_columns) @ '' numeric).'']
             | _ \<Rightarrow> []);
          missingness = obj_of (dict_get auto ''missingness'');
          cols_with_missing =
            sort_key (\<lambda>x. - snd x)
              (concat (map (\<lambda>(c, stats).
                 if 0 < number_of (dict_get (obj_of (Some stats)) ''missing_count'')
                 then [(c, number_of (dict_get (obj_of (Some stats)) ''missing_pct''))] else [])
               missingness));
          findings2 =
            (case cols_with_missing of
               [] \<Rightarrow> []
             | (top_col, top_pct) # _ \<Rightarrow>
                 [''Highest missingness is in '' @ quoted top_col @ '' (''
                  @ fmt_float lib ''.1f'' top_pct @ ''%).'']);
          trend = obj_of (dict_get auto ''primary_trend'');
          x = text_of (dict_get trend ''x'') ''x'';
          y = text_of (dict_get trend ''y'') ''y'';
          findings3 =
            (case dict_get trend ''slope'' of
               Some (JNum slope) \<Rightarrow>
                 [''Primary linear trend suggests '' @ quoted y @ '' changes by ''
                  @ fmt_float lib ''.4g'' slope @ '' per 1 unit of '' @ quoted x @ ''.'']
             | _ \<Rightarrow> []);
          calculations3 =
            (case (dict_get trend ''slope'', dict_get trend ''r2'') of
               (Some (JNum slope), Some (JNum r2)) \<Rightarrow>
                 [''Linear fit on ('' @ x @ '', '' @ y @ ''): slope='' @ fmt_float lib ''.6g'' slope
                  @ '', intercept=''
                  @ (case dict_get trend ''intercept'' of
                       Some (JNum i) \<Rightarrow> str_float lib i | _ \<Rightarrow> ''None'')
                  @ '', R^2='' @ fmt_float lib ''.4f'' r2]
             | _ \<Rightarrow> []);
          top_correlations = list_of_json (dict_get auto ''top_correlations'');
          strongest =
            (case top_correlations of
               [] \<Rightarrow> None
             | c0 # _ \<Rightarrow>
                 (case dict_get (obj_of (Some c0)) ''corr'' of
                    Some (JNum corr) \<Rightarrow>
                      Some (case list_of_json (dict_get (obj_of (Some c0)) ''pair'') of
                              [JStr a, JStr b] \<Rightarrow> (a, b)
                            | _ \<Rightarrow> (''col_a'', ''col_b''), corr)
                  | _ \<Rightarrow> None));
          findings4 =
            (case strongest of
               None \<Rightarrow> []
             | Some ((a, b), corr) \<Rightarrow>
                 [''Strongest observed correlation is between '' @ quoted a @ '' and ''
                  @ quoted b @ '' (r='' @ fmt_float lib ''.3f'' corr @ '').'']);
          calculations4 =
            (case strongest of
               None \<Rightarrow> []
             | Some ((a, b), corr) \<Rightarrow>
                 [''Pearson correlation: r('' @ a @ '', '' @ b @ '') = ''
                  @ fmt_float lib ''.6g'' corr]);
          outliers = obj_of (dict_get auto ''outliers_iqr_count'');
          findings5 =
            (case first_max outliers of
               None \<Rightarrow> []
             | Some (col, count) \<Rightarrow>
                 if 0 < count then
                   [''Most IQR outliers occur in '' @ quoted col @ '' (''
                    @ str_int \<lfloor>count\<rfloor> @ '' points).'']
                 else [])
      in [(''key_findings'',
             JList (map JStr (findings1 @ findings2 @ findings3 @ findings4 @ findings5))),
          (''calculation_snippets'', JList (map JStr (calculations3 @ calculations4)))])"

text \<open>The loop \<open>for col in all_columns\<close> that fills \<open>missing_by_column\<close>\<close>

fun missing_loop ::
  "'f data_lib \<Rightarrow> 'f \<Rightarrow> (string, json) dict \<Rightarrow> string list \<Rightarrow> exn + (string, json) dict" where
  "missing_loop lib df missing_by_column [] = Inr missing_by_column"
| "missing_loop lib df missing_by_column (col # rest) =
     (case pd_isna_sum lib df col of
        Inl e \<Rightarrow> Inl e
      | Inr miss \<Rightarrow>
          missing_loop lib df
            (dict_set missing_by_column col
               (JObj [(''missing_count'', JInt (int miss)),
                      (''missing_pct'',
                         if pd_len lib df \<noteq> 0
                         then safe_float (Some (fl_percent lib miss (pd_len lib df)))
                         else JNum 0)]))
            rest)"

text \<open>
  The body of the loop \<open>for col in numeric_columns\<close>: the entry of \<open>numeric_summary\<close> and
  the count of outliers of the column; then the loop, which fills \<open>numeric_summary\<close> and
  \<open>outliers\<close>.
\<close>

definition column_summary :: "'f data_lib \<Rightarrow> 'f \<Rightarrow> string \<Rightarrow> exn + json \<times> nat" where
  "column_summary lib df col =
     bindE (pd_column lib df col) (\<lambda>s.
     bindE (pd_min lib s) (\<lambda>v_min.
     bindE (pd_max lib s) (\<lambda>v_max.
     bindE (pd_mean lib s) (\<lambda>v_mean.
     bindE (pd_median lib s) (\<lambda>v_median.
     bindE (pd_std lib s) (\<lambda>v_std.
     Inr (JObj [(''min'', safe_float v_min), (''max'', safe_float v_max),
                (''mean'', safe_float v_mean), (''median'', safe_float v_median),
                (''std'', safe_float v_std)],
          iqr_outlier_count (pd_quantile lib) s)))))))"

fun numeric_loop ::
  "'f data_lib \<Rightarrow> 'f \<Rightarrow> (string, json) dict \<times> (string, json) dict \<Rightarrow> string list
     \<Rightarrow> exn + (string, json) dict \<times> (string, json) dict" where
  "numeric_loop lib df acc [] = Inr acc"
| "numeric_loop lib df acc (col # rest) =
     (case column_summary lib df col of
        Inl e \<Rightarrow> Inl e
      | Inr (summary, count) \<Rightarrow>
          numeric_loop lib df
            (dict_set (fst acc) col summary, dict_set (snd acc) col (JInt (int count))) rest)"

text \<open>
  The pairs \<open>(a, b)\<close> of \<open>for i, a in enumerate(numeric_columns): for b in
  numeric_columns[i + 1:]\<close>, the loop that collects the correlations that are not \<open>NaN\<close>,
  and \<open>pairs.sort(key=lambda x: abs(x["corr"]), reverse=True)\<close> with \<open>pairs[:5]\<close>: the sort
  is stable, so pairs with equal keys keep their order.
\<close>

fun column_pairs :: "string list \<Rightarrow> (string \<times> string) list" where
  "column_pairs [] = []"
| "column_pairs (a # rest) = map (\<lambda>b. (a, b)) rest @ column_pairs rest"

fun corr_loop ::
  "(string \<Rightarrow> string \<Rightarrow> exn + real option) \<Rightarrow> ((string \<times> string) \<times> real) list
     \<Rightarrow> (string \<times> string) list \<Rightarrow> exn + ((string \<times> string) \<times> real) list" where
  "corr_loop corr pairs [] = Inr pairs"
| "corr_loop corr pairs ((a, b) # rest) =
     (case corr a b of
        Inl e \<Rightarrow> Inl e
      | Inr None \<Rightarrow> corr_loop corr pairs rest
      | Inr (Some v) \<Rightarrow> corr_loop corr (pairs @ [((a, b), v)]) rest)"

definition top_correlations :: "'f data_lib \<Rightarrow> 'f \<Rightarrow> string list \<Rightarrow> exn + json" where
  "top_correlations lib df numeric_columns =
     bindE (pd_corr lib df numeric_columns) (\<lambda>corr.
     bindE (corr_loop corr [] (column_pairs numeric_columns)) (\<lambda>pairs.
     Inr (JList (map (\<lambda>((a, b), v). JObj [(''pair'', JList [JStr a, JStr b]), (''corr'', JNum v)])
                  (take 5 (sort_key (\<lambda>p. - \<bar>snd p\<bar>) pairs))))))"

text \<open>
  The dictionary \<open>out\<close>, from the frame \<open>df\<close>. The entries of \<open>out["auto_analysis"]\<close> are
  collected in the order in which \<open>run\<close> stores them.
\<close>

definition data_summary_of :: "'f data_lib \<Rightarrow> 'f \<Rightarrow> int \<Rightarrow> exn + (string, json) dict" where
  "data_summary_of lib df n_preview =
     bindE (pd_numeric_columns lib df) (\<lambda>numeric_columns.
     bindE (pd_columns lib df) (\<lambda>all_columns.
     bindE (pd_describe lib df) (\<lambda>describe_full.
     bindE (pd_head lib df n_preview) (\<lambda>preview_head.
     bindE (missing_loop lib df [] all_columns) (\<lambda>missing_by_column.
     bindE (if numeric_columns \<noteq> [] then
              bindE (numeric_loop lib df ([], []) numeric_columns) (\<lambda>(numeric_summary, outliers).
              Inr [(''missingness'', JObj missing_by_column),
                   (''numeric_summary'', JObj numeric_summary),
                   (''outliers_iqr_count'', JObj outliers)])
            else Inr [(''missingness'', JObj missing_by_column)]) (\<lambda>auto1.
     bindE (case detect_time_column all_columns of
              None \<Rightarrow> Inr auto1
            | Some time_col \<Rightarrow>
                if time_col \<noteq> [] \<and> numeric_columns \<noteq> [] then
                  (case filter (\<lambda>c. c \<noteq> time_col) numeric_columns of
                     [] \<Rightarrow> Inr auto1
                   | y # _ \<Rightarrow>
                       bindE (linear_trend lib df time_col y) (\<lambda>trend.
                       Inr (dict_set auto1 ''primary_trend'' (JObj trend))))
                else Inr auto1) (\<lambda>auto2.
     bindE (if 2 \<le> length numeric_columns then
              bindE (top_correlations lib df numeric_columns) (\<lambda>top.
              Inr (dict_set (dict_set auto2 ''numeric_candidates'' (JList (map JStr numeric_columns)))
                     ''top_correlations'' top))
            else Inr auto2) (\<lambda>auto_analysis.
     Inr [(''n_total'', JInt (int (pd_len lib df))),
          (''preview_rows'', JInt n_preview),
          (''columns'', JList (map JStr all_columns)),
          (''numeric_columns'', JList (map JStr numeric_columns)),
          (''describe_full'', describe_full),
          (''preview_head'', preview_head),
          (''auto_analysis'', JObj auto_analysis)]))))))))"

text \<open>
  The \<open>try\<close> block of \<open>run\<close> and \<open>run\<close>. \<open>read_csv\<close> is \<open>pd.read_csv\<close>, which reads the
  world. \<open>if not csv_path\<close> holds of \<open>None\<close> and of the empty path.
\<close>

definition data_try ::
  "(string \<Rightarrow> ('w, 'f) try_block) \<Rightarrow> 'f data_lib \<Rightarrow> string \<Rightarrow> ctx
     \<Rightarrow> ('w, AgentResult) try_block" where
  "data_try read_csv lib job c = (\<lambda>w.
     let n_preview = ctx_preview_rows c
     in case (case csv_path c of None \<Rightarrow> None | Some p \<Rightarrow> if p = [] then None else Some p) of
          None \<Rightarrow>
            (Inr (success Data job (Some (empty_payload\<lparr>p_data_summary := Some []\<rparr>)) None), w)
        | Some path \<Rightarrow>
            (case read_csv path w of
               (Inl e, w1) \<Rightarrow> (Inl e, w1)
             | (Inr df, w1) \<Rightarrow>
                 (case data_summary_of lib df n_preview of
                    Inl e \<Rightarrow> (Inl e, w1)
                  | Inr out \<Rightarrow>
                      (let data_highlights = build_data_highlights lib out
                       in (Inr (success Data job
                             (Some (empty_payload\<lparr>p_data_summary := Some out,
                                p_data_highlights := Some data_highlights\<rparr>)) None), w1)))))"

definition data_agent_run ::
  "(string \<Rightarrow> ('w, 'f) try_block) \<Rightarrow> 'f data_lib \<Rightarrow> string \<Rightarrow> ctx \<Rightarrow> 'w \<Rightarrow> AgentResult \<times> 'w" where
  "data_agent_run read_csv lib job c =
     try_except (data_try read_csv lib job c)
       (\<lambda>e. fail Data job ''Data agent failed'' (failure_detail e))"

section \<open>Runs of the pipeline with stand-ins for the agents\<close>

text \<open>
  As in \<open>tests/test_orchestrator_repair.py\<close>, the agents are replaced by functions with
  fixed answers. The state of the world is the list of the agents called so far; the
  writer's answer depends on how often it has been called.
\<close>

definition fake_env ::
  "AgentResult \<Rightarrow> AgentResult \<Rightarrow> (nat \<Rightarrow> AgentResult) \<Rightarrow> AgentResult \<Rightarrow> AgentResult
     \<Rightarrow> (agent_name list) env" where
  "fake_env r d script rv dg =
     \<lparr>research_run = (\<lambda>j c w. (r, w @ [Research])),
      data_run = (\<lambda>j c w. (d, w @ [Data])),
      writer_run = (\<lambda>j c w. (script (length (filter (\<lambda>a. a = Writer) w)), w @ [Writer])),
      reviewer_run = (\<lambda>j c w. (rv, w @ [Reviewer])),
      diagram_run = (\<lambda>j c w. (dg, w @ [Diagram]))\<rparr>"

definition plain_cfg :: "string list \<Rightarrow> template_cfg" where
  "plain_cfg headers =
     \<lparr>display_name = None, instructions = None, writer_format = headers, writer_rules = [],
      preview_rows = None, include_review = None, include_figures = None,
      quality = \<lparr>min_words = [], required_terms_by_section = [],
                  required_global_terms = []\<rparr>\<rparr>"

definition fake_args ::
  "template_cfg \<Rightarrow> (agent_name list \<Rightarrow> bool) option \<Rightarrow> (agent_name list) pipeline_args" where
  "fake_args cfg cancel =
     \<lparr>a_job_id = ''job12345'', a_manual_text = ''manual'', a_goal = ''goal'', a_csv_path = None,
      a_extra_instructions = [], a_template_cfg = cfg, a_include_review = False,
      progress_cb = None,
      should_cancel = map_option (\<lambda>p. (\<lambda>w. (p w, w))) cancel\<rparr>"

definition fake_research :: AgentResult where
  "fake_research =
     success Research ''job12345'' (Some (empty_payload\<lparr>p_theory_text := Some ''theory''\<rparr>)) None"

definition fake_data :: "(string, json) dict \<Rightarrow> AgentResult" where
  "fake_data summary =
     success Data ''job12345'' (Some (empty_payload\<lparr>p_data_summary := Some summary\<rparr>)) None"

definition fake_writer :: "string \<Rightarrow> (string, string) dict \<Rightarrow> AgentResult" where
  "fake_writer report sections =
     success Writer ''job12345''
       (Some (empty_payload\<lparr>p_report_text := Some report, p_sections := Some sections\<rparr>)) None"

definition fake_reviewer :: AgentResult where
  "fake_reviewer =
     success Reviewer ''job12345'' (Some (empty_payload\<lparr>p_review_text := Some ''ok''\<rparr>)) None"

definition fake_diagram :: AgentResult where
  "fake_diagram =
     success Diagram ''job12345'' (Some (empty_payload\<lparr>p_figures_text := Some ''fig''\<rparr>)) None"

text \<open>The scenario of \<open>tests/test_quality_gate.py\<close>\<close>

definition scenario_cfg :: template_cfg where
  "scenario_cfg = (plain_cfg [''Results'', ''Discussion''])
     \<lparr>quality := \<lparr>min_words = [(''Results'', 2)],
                   required_terms_by_section = [(''Discussion'', [''limitation''])],
                   required_global_terms = []\<rparr>\<rparr>"

definition scenario_report :: string where
  "scenario_report = ''Results:'' @ [LF] @ ''Good data summary.'' @ [LF, LF] @ ''Discussion:'' @ [LF]
     @ ''This section is present but lacks expected wording.''"

text \<open>
  The template and the writer's answers of \<open>tests/test_orchestrator_repair.py\<close>: a first
  draft without the section \<open>Conclusion\<close>, a second draft with it, and a draft that is
  complete at once.
\<close>

definition oc_cfg :: template_cfg where
  "oc_cfg = plain_cfg [''Objective'', ''Conclusion'']"

definition first_draft :: AgentResult where
  "first_draft = fake_writer (''Objective:'' @ [LF] @ ''x'')
     [(''Objective'', ''x''), (''Conclusion'', [])]"

definition second_draft :: AgentResult where
  "second_draft =
     fake_writer (''Objective:'' @ [LF] @ ''x'' @ [LF, LF] @ ''Conclusion:'' @ [LF] @ ''y'')
       [(''Objective'', ''x''), (''Conclusion'', ''y'')]"

definition complete_draft :: AgentResult where
  "complete_draft =
     fake_writer (''Objective:'' @ [LF] @ ''A'' @ [LF, LF] @ ''Conclusion:'' @ [LF] @ ''B'')
       [(''Objective'', ''A''), (''Conclusion'', ''B'')]"

definition boom :: "agent_name \<Rightarrow> string \<Rightarrow> AgentResult" where
  "boom a m = fail a ''job12345'' m (Some ''LLMError: boom'')"

text \<open>The writer repairs its draft when it is asked again.\<close>

definition repairing_env :: "(agent_name list) env" where
  "repairing_env =
     fake_env fake_research (fake_data [(''n_total'', JInt 3)])
       (\<lambda>n. if n = 0 then first_draft else second_draft) fake_reviewer fake_diagram"

text \<open>The writer returns the first draft whenever it is asked.\<close>

definition stubborn_env :: "(string, json) dict \<Rightarrow> (agent_name list) env" where
  "stubborn_env summary =
     fake_env fake_research (fake_data summary) (\<lambda>n. first_draft) fake_reviewer fake_diagram"

definition complete_env :: "(agent_name list) env" where
  "complete_env =
     fake_env fake_research (fake_data []) (\<lambda>n. complete_draft) fake_reviewer fake_diagram"

text \<open>The writer fails; the research fails.\<close>

definition failing_writer_env :: "(agent_name list) env" where
  "failing_writer_env =
     fake_env fake_research (fake_data [(''n_total'', JInt 3)])
       (\<lambda>n. boom Writer ''Writer agent failed'') fake_reviewer fake_diagram"

definition failing_research_env :: "(agent_name list) env" where
  "failing_research_env =
     fake_env (boom Research ''Research agent failed'') (fake_data [])
       (\<lambda>n. complete_draft) fake_reviewer fake_diagram"

text \<open>
  The writer is the agent of \<open>agents/writer_agent.py\<close>, on a text generator that always
  answers \<open>answer\<close>.
\<close>

definition real_writer_env :: "string \<Rightarrow> (agent_name list) env" where
  "real_writer_env answer =
     (fake_env fake_research (fake_data []) (\<lambda>n. complete_draft) fake_reviewer fake_diagram)
       \<lparr>writer_run :=
          writer_agent_run (\<lambda>system user w. (Inr answer, w @ [Writer])) (\<lambda>d. Inr ''{}'')\<rparr>"

text \<open>The user cancels the job while the writer is at work for the second time.\<close>

definition cancel_after_two_writes :: "agent_name list \<Rightarrow> bool" where
  "cancel_after_two_writes w \<longleftrightarrow> 2 \<le> length (filter (\<lambda>a. a = Writer) w)"

text \<open>The user cancels the job while the research step is at work.\<close>

definition cancel_after_research :: "agent_name list \<Rightarrow> bool" where
  "cancel_after_research w \<longleftrightarrow> Research \<in> set w"

text \<open>
  The reviewer and the diagram agent fail, in a run that asks for both: the template
  enables the review, the caller asks for it, and the data summary is not empty.
\<close>

definition failing_reviewer_env :: "(agent_name list) env" where
  "failing_reviewer_env =
     fake_env fake_research (fake_data [(''n_total'', JInt 3)]) (\<lambda>n. complete_draft)
       (boom Reviewer ''Reviewer agent failed'') (boom Diagram ''Diagram agent failed'')"

definition review_args :: "(agent_name list) pipeline_args" where
  "review_args =
     (fake_args (oc_cfg\<lparr>include_review := Some True\<rparr>) None)\<lparr>a_include_review := True\<rparr>"

text \<open>A trace without the results: the answers of the predicate and the steps called.\<close>

definition trace_outline :: "event list \<Rightarrow> (bool + step) list" where
  "trace_outline tr =
     concat (map (\<lambda>e. case e of CancelCheck b \<Rightarrow> [Inl b] | Progress _ _ \<Rightarrow> []
                        | Invoke s _ \<Rightarrow> [Inr s]) tr)"

text \<open>
  A stand-in for pandas: a frame is the list of its columns, the column \<open>label\<close> is not
  numeric, and the correlation of a frame with a column \<open>bad\<close> raises. A number is
  printed as its format specification between angle brackets. Three files: two that can
  be read and one that is missing.
\<close>

type_synonym frame = "(string \<times> series) list"

definition fake_lib :: "frame data_lib" where
  "fake_lib =
     \<lparr>pd_numeric_columns = (\<lambda>df. Inr (map fst (filter (\<lambda>(c, s). c \<noteq> ''label'') df))),
      pd_columns = (\<lambda>df. Inr (map fst df)),
      pd_len = (\<lambda>df. case df of [] \<Rightarrow> 0 | (c, s) # _ \<Rightarrow> length s),
      pd_describe = (\<lambda>df. Inr (JObj [])),
      pd_head = (\<lambda>df n. Inr (JList [])),
      pd_isna_sum = (\<lambda>df col. case map_of df col of
                       None \<Rightarrow> Inl (KeyError col)
                     | Some s \<Rightarrow> Inr (length (filter (\<lambda>x. x = None) s))),
      pd_column = (\<lambda>df col. case map_of df col of None \<Rightarrow> Inl (KeyError col) | Some s \<Rightarrow> Inr s),
      pd_min = (\<lambda>s. Inr (case dropna s of [] \<Rightarrow> None | x # xs \<Rightarrow> Some (fold min xs x))),
      pd_max = (\<lambda>s. Inr (case dropna s of [] \<Rightarrow> None | x # xs \<Rightarrow> Some (fold max xs x))),
      pd_mean = (\<lambda>s. Inr None), pd_median = (\<lambda>s. Inr None), pd_std = (\<lambda>s. Inr None),
      pd_quantile = quantile_linear,
      pd_corr = (\<lambda>df cols. if ''bad'' \<in> set cols
                   then Inl (OtherError ''ValueError'' ''no correlation'')
                   else Inr (\<lambda>a b. Inr (if a = ''Time'' then Some (1 / 2) else Some (- 1)))),
      pd_pair_len = (\<lambda>df x y. case (map_of df x, map_of df y) of
                       (Some sx, Some sy) \<Rightarrow>
                         Inr (length (filter (\<lambda>(a, b). a \<noteq> None \<and> b \<noteq> None) (zip sx sy)))
                     | _ \<Rightarrow> Inl (KeyError x)),
      pd_pair_floats = (\<lambda>df x y. case (map_of df x, map_of df y) of
                       (Some sx, Some sy) \<Rightarrow>
                         Inr (concat (map (\<lambda>(a, b). case (a, b) of
                                (Some u, Some v) \<Rightarrow> [(u, v)] | _ \<Rightarrow> []) (zip sx sy)))
                     | _ \<Rightarrow> Inl (KeyError x)),
      fl_percent = (\<lambda>m n. real m / real n * 100),
      fmt_float = (\<lambda>spec v. ''<'' @ spec @ ''>''),
      str_float = (\<lambda>v. ''<float>'')\<rparr>"

definition fake_read_csv :: "string \<Rightarrow> (unit, frame) try_block" where
  "fake_read_csv path = (\<lambda>w.
     if path = ''one.csv'' then
       (Inr [(''Time'', [Some 0, Some 1]), (''label'', [None, None]), (''v'', [Some 2, Some 4]),
             (''u'', [Some 3, Some 3])], w)
     else if path = ''two.csv'' then (Inr [(''a'', [Some 0]), (''bad'', [Some 1])], w)
     else (Inl (OtherError ''FileNotFoundError''
                  (''[Errno 2] No such file or directory: '' @ CHR 0x27 # path @ [CHR 0x27])), w))"

definition data_ctx :: "string option \<Rightarrow> ctx" where
  "data_ctx path = \<lparr>manual_text = [], goal = [], csv_path = path, ctx_preview_rows = 10,
     extra_instructions = [], ctx_template_cfg = oc_cfg\<rparr>"

text \<open>
  What the examples read of a result of the data agent: whether it is a success, the
  trend, the correlations and the highlights.
\<close>

definition data_view :: "AgentResult \<Rightarrow> bool \<times> json option \<times> json option \<times> (string, json) dict option" where
  "data_view r =
     (let auto = obj_of (case p_data_summary (payload r) of
                           None \<Rightarrow> None | Some out \<Rightarrow> dict_get out ''auto_analysis'')
      in (ok r, dict_get auto ''primary_trend'', dict_get auto ''top_correlations'',
          p_data_highlights (payload r)))"

section \<open>Facts about the string functions\<close>

lemma lstrip_id: "s = [] \<or> \<not> is_space (hd s) \<Longrightarrow> lstrip s = s"
  by (cases s) (auto simp: lstrip_def)

lemma rstrip_id: "s = [] \<or> \<not> is_space (last s) \<Longrightarrow> rstrip s = s"
  by (cases s rule: rev_cases) (auto simp: rstrip_def)

lemma rstrip_append_spaces: "\<forall>c\<in>set ws. is_space c \<Longrightarrow> rstrip (s @ ws) = rstrip s"
proof -
  assume "\<forall>c\<in>set ws. is_space c"
  then have "dropWhile is_space (rev ws @ rev s) = dropWhile is_space (rev s)"
    by (intro dropWhile_append2) simp
  then show ?thesis by (simp add: rstrip_def)
qed

lemma rstrip_last: "rstrip s \<noteq> [] \<Longrightarrow> \<not> is_space (last (rstrip s))"
proof -
  assume a: "rstrip s \<noteq> []"
  then have "dropWhile is_space (rev s) \<noteq> []" by (simp add: rstrip_def)
  then have "\<not> is_space (hd (dropWhile is_space (rev s)))" by (rule hd_dropWhile)
  then show ?thesis using a by (simp add: rstrip_def last_rev)
qed

lemma lstrip_hd: "lstrip s \<noteq> [] \<Longrightarrow> \<not> is_space (hd (lstrip s))"
  unfolding lstrip_def by (rule hd_dropWhile)

lemma rstrip_prefix: "\<exists>ws. s = rstrip s @ ws \<and> (\<forall>c\<in>set ws. is_space c)"
proof -
  have "rev s = takeWhile is_space (rev s) @ dropWhile is_space (rev s)" by simp
  then have "s = rev (dropWhile is_space (rev s)) @ rev (takeWhile is_space (rev s))"
    by (metis rev_append rev_rev_ident)
  moreover have "\<forall>c\<in>set (rev (takeWhile is_space (rev s))). is_space c"
    by (auto dest: set_takeWhileD)
  ultimately show ?thesis unfolding rstrip_def by blast
qed

lemma strip_ends:
  "strip s = [] \<or> (\<not> is_space (hd (strip s)) \<and> \<not> is_space (last (strip s)))"
proof (cases "strip s = []")
  case True then show ?thesis by simp
next
  case False
  obtain ws where ws: "lstrip s = rstrip (lstrip s) @ ws" using rstrip_prefix by blast
  from False have ne: "rstrip (lstrip s) \<noteq> []" by (simp add: strip_def)
  then have "lstrip s \<noteq> []" using ws by auto
  then have "\<not> is_space (hd (lstrip s))" by (rule lstrip_hd)
  moreover have "hd (lstrip s) = hd (rstrip (lstrip s))" using ws ne by (metis hd_append2)
  ultimately show ?thesis using rstrip_last[OF ne] by (simp add: strip_def)
qed

lemma strip_id: "s = [] \<or> (\<not> is_space (hd s) \<and> \<not> is_space (last s)) \<Longrightarrow> strip s = s"
  by (auto simp: strip_def lstrip_id rstrip_id)

lemma strip_strip: "strip (strip s) = strip s"
  using strip_ends[of s] by (intro strip_id) auto

lemma str_join_Cons: "ys \<noteq> [] \<Longrightarrow> str_join sep (x # ys) = x @ sep @ str_join sep ys"
  by (cases ys) auto

lemma str_join_append:
  "xs \<noteq> [] \<Longrightarrow> ys \<noteq> [] \<Longrightarrow> str_join sep (xs @ ys) = str_join sep xs @ sep @ str_join sep ys"
proof (induction xs)
  case Nil then show ?case by simp
next
  case (Cons x xs)
  show ?case
  proof (cases "xs = []")
    case True then show ?thesis using Cons.prems by (simp add: str_join_Cons)
  next
    case False
    then show ?thesis using Cons by (simp add: str_join_Cons)
  qed
qed

lemma splitlines_aux_plain:
  "\<forall>c\<in>set l. \<not> is_linebreak c \<Longrightarrow>
     splitlines_aux False cur (l @ rest) = splitlines_aux False (cur @ l) rest"
proof (induction l arbitrary: cur)
  case Nil then show ?case by simp
next
  case (Cons c l)
  then have "\<not> is_linebreak c" by simp
  moreover have "c \<noteq> LF \<or> \<not> False" by simp
  ultimately show ?case using Cons by simp
qed

lemma LF_linebreak: "is_linebreak LF"
  by (simp add: is_linebreak_def LF_def)

lemma LF_not_CR: "LF \<noteq> CR"
  by (simp add: LF_def CR_def)

lemma splitlines_aux_LF:
  "splitlines_aux False cur (LF # rest) = cur # splitlines_aux False [] rest"
  by (simp add: LF_linebreak LF_not_CR)

lemma splitlines_join:
  "\<forall>l\<in>set (l0 # ls). \<forall>c\<in>set l. \<not> is_linebreak c \<Longrightarrow> last (l0 # ls) \<noteq> [] \<Longrightarrow>
     splitlines_aux False [] (str_join [LF] (l0 # ls)) = l0 # ls"
proof (induction ls arbitrary: l0)
  case Nil
  then show ?case using splitlines_aux_plain[of l0 "[]" "[]"] by simp
next
  case (Cons l1 ls)
  have "splitlines_aux False [] (str_join [LF] (l0 # l1 # ls))
        = splitlines_aux False [] (l0 @ LF # str_join [LF] (l1 # ls))" by simp
  also have "\<dots> = splitlines_aux False l0 (LF # str_join [LF] (l1 # ls))"
    using splitlines_aux_plain[of l0 "[]"] Cons.prems(1) by simp
  also have "\<dots> = l0 # splitlines_aux False [] (str_join [LF] (l1 # ls))"
    by (rule splitlines_aux_LF)
  also have "\<dots> = l0 # l1 # ls" using Cons.IH[of l1] Cons.prems by simp
  finally show ?case .
qed

lemma no_linebreak_simps:
  "no_linebreak []" "no_linebreak (c # s) \<longleftrightarrow> \<not> is_linebreak c \<and> no_linebreak s"
  "no_linebreak (s @ t) \<longleftrightarrow> no_linebreak s \<and> no_linebreak t"
  by (simp_all add: no_linebreak_def)

lemma splitlines_aux_lines_plain:
  "no_linebreak cur \<Longrightarrow> list_all no_linebreak (splitlines_aux b cur s)"
proof (induction s arbitrary: b cur)
  case Nil then show ?case by simp
next
  case (Cons c s)
  have a: "list_all no_linebreak (splitlines_aux False cur s)"
    using Cons.prems by (rule Cons.IH)
  have b: "list_all no_linebreak (splitlines_aux (c = CR) [] s)"
    by (rule Cons.IH) (simp add: no_linebreak_simps)
  have c: "\<not> is_linebreak c \<Longrightarrow> list_all no_linebreak (splitlines_aux False (cur @ [c]) s)"
    by (rule Cons.IH) (simp add: no_linebreak_simps Cons.prems)
  show ?case
  proof (cases "b \<and> c = LF")
    case True then show ?thesis using a by simp
  next
    case False
    then show ?thesis using a b c Cons.prems by (cases "is_linebreak c") simp_all
  qed
qed

lemma splitlines_aux_join:
  "\<forall>c\<in>set s. is_linebreak c \<longrightarrow> c = LF \<Longrightarrow>
   (s = [] \<and> cur \<noteq> []) \<or> (s \<noteq> [] \<and> last s \<noteq> LF) \<Longrightarrow>
     splitlines_aux False cur s \<noteq> [] \<and> str_join [LF] (splitlines_aux False cur s) = cur @ s"
proof (induction s arbitrary: cur)
  case Nil then show ?case by simp
next
  case (Cons c s)
  show ?case
  proof (cases "is_linebreak c")
    case True
    then have c: "c = LF" using Cons.prems(1) by simp
    then have s: "s \<noteq> [] \<and> last s \<noteq> LF" using Cons.prems(2) by (cases s) auto
    have "\<forall>c\<in>set s. is_linebreak c \<longrightarrow> c = LF" using Cons.prems(1) by simp
    from Cons.IH[OF this, of "[]"] s
    have ih: "splitlines_aux False [] s \<noteq> []" "str_join [LF] (splitlines_aux False [] s) = s"
      by auto
    show ?thesis using ih by (simp add: c splitlines_aux_LF str_join_Cons del: splitlines_aux.simps)
  next
    case False
    have p: "\<forall>c\<in>set s. is_linebreak c \<longrightarrow> c = LF" using Cons.prems(1) by simp
    have q: "(s = [] \<and> cur @ [c] \<noteq> []) \<or> (s \<noteq> [] \<and> last s \<noteq> LF)"
      using Cons.prems(2) by (cases s) auto
    from Cons.IH[OF p q] False show ?thesis by simp
  qed
qed

lemma LF_space: "is_space LF"
  by (simp add: is_space_def LF_def)

lemma colon_not_space: "\<not> is_space CHR '':''"
  by (simp add: is_space_def)

lemma linebreak_space: "is_linebreak c \<Longrightarrow> is_space c"
  by (auto simp: is_linebreak_def is_space_def)

lemma header_name_empty: "header_name hs [] = None"
  by (simp add: header_name_def strip_def lstrip_def rstrip_def endswith_colon_def)

lemma header_name_header:
  assumes "h \<in> set hs" "strip h = h"
  shows "header_name hs (h @ '':'') = Some h"
proof -
  have "h = [] \<or> \<not> is_space (hd h)" using strip_ends[of h] assms(2) by auto
  then have "\<not> is_space (hd (h @ '':''))" by (cases h) (auto simp: colon_not_space)
  then have "strip (h @ '':'') = h @ '':''"
    by (intro strip_id) (simp add: colon_not_space)
  moreover have "h \<in> set (map strip hs)" using assms by force
  ultimately show ?thesis using assms(2) by (simp add: header_name_def endswith_colon_def)
qed

lemma set_strip: "set (strip s) \<subseteq> set s"
proof -
  have "set (rstrip t) \<subseteq> set t" for t
    unfolding rstrip_def using set_dropWhileD[of _ is_space "rev t"] by auto
  moreover have "set (lstrip t) \<subseteq> set t" for t
    unfolding lstrip_def using set_dropWhileD[of _ is_space t] by auto
  ultimately show ?thesis unfolding strip_def by blast
qed

lemma hd_str_join: "x \<noteq> [] \<Longrightarrow> hd (str_join sep (x # xs)) = hd x"
  by (cases xs) auto

lemma str_join_nonempty: "ls \<noteq> [] \<Longrightarrow> last ls \<noteq> [] \<Longrightarrow> str_join sep ls \<noteq> []"
proof (induction ls)
  case Nil then show ?case by simp
next
  case (Cons l ls)
  then show ?case by (cases ls) auto
qed

lemma last_str_join:
  "ls \<noteq> [] \<Longrightarrow> last ls \<noteq> [] \<Longrightarrow> last (str_join sep ls) = last (last ls)"
proof (induction ls)
  case Nil then show ?case by simp
next
  case (Cons l ls)
  show ?case
  proof (cases "ls = []")
    case True then show ?thesis by simp
  next
    case False
    then have "str_join sep ls \<noteq> []" using Cons.prems by (intro str_join_nonempty) simp_all
    then show ?thesis using False Cons by (simp add: str_join_Cons)
  qed
qed

lemma body_lines:
  assumes "strip b = b" "\<forall>c\<in>set b. is_linebreak c \<longrightarrow> c = LF"
  defines "bl \<equiv> (if b = [] then [[]] else splitlines b)"
  shows "bl \<noteq> []" "str_join [LF] bl = b" "list_all no_linebreak bl"
    "b \<noteq> [] \<Longrightarrow> last bl \<noteq> []"
proof -
  have e: "b = [] \<or> (\<not> is_space (hd b) \<and> \<not> is_space (last b))"
    using strip_ends[of b] assms(1) by simp
  have j: "b \<noteq> [] \<Longrightarrow> splitlines b \<noteq> [] \<and> str_join [LF] (splitlines b) = b"
  proof -
    assume ne: "b \<noteq> []"
    then have "last b \<noteq> LF" using e LF_space by auto
    then show ?thesis using splitlines_aux_join[OF assms(2), of "[]"] ne
      by (simp add: splitlines_def)
  qed
  show 1: "bl \<noteq> []" using j by (simp add: bl_def)
  show 2: "str_join [LF] bl = b" using j by (simp add: bl_def)
  show "list_all no_linebreak bl"
    using splitlines_aux_lines_plain[of "[]" False b]
    by (simp add: bl_def splitlines_def no_linebreak_simps)
  show "last bl \<noteq> []" if ne: "b \<noteq> []"
  proof
    assume l: "last bl = []"
    obtain xs where xs: "bl = xs @ [[]]" using 1 l by (metis append_butlast_last_id)
    show False
    proof (cases "xs = []")
      case True then show ?thesis using 2 xs ne by simp
    next
      case False
      then have "str_join [LF] bl = str_join [LF] xs @ [LF]"
        using xs by (simp add: str_join_append)
      then have "last b = LF" using 2 by (metis last_snoc)
      then show ?thesis using e ne LF_space by auto
    qed
  qed
qed

lemma strip_body_sep:
  assumes "strip b = b" "\<forall>c\<in>set ws. is_space c"
  shows "strip (b @ ws) = b"
proof (cases "b = []")
  case True
  have "dropWhile is_space ws = []" using assms(2) dropWhile_eq_Nil_conv by blast
  then show ?thesis using True by (simp add: strip_def lstrip_def rstrip_def del: dropWhile_eq_Nil_conv)
next
  case False
  then have e: "\<not> is_space (hd b)" "\<not> is_space (last b)"
    using strip_ends[of b] assms(1) by auto
  have "lstrip (b @ ws) = b @ ws" using False e by (intro lstrip_id) simp
  moreover have "rstrip (b @ ws) = rstrip b" using assms(2) by (rule rstrip_append_spaces)
  moreover have "rstrip b = b" using e by (intro rstrip_id) simp
  ultimately show ?thesis by (simp add: strip_def)
qed

lemma str_join_chunks:
  "\<forall>h\<in>set hs. g h \<noteq> [] \<Longrightarrow>
     str_join sep (concat (map (\<lambda>h. [f h, str_join sep (g h), []]) hs)) =
     str_join sep (concat (map (\<lambda>h. f h # g h @ [[]]) hs))"
proof (induction hs)
  case Nil then show ?case by simp
next
  case (Cons h hs)
  have g: "g h \<noteq> []" using Cons.prems by simp
  have c: "str_join sep [f h, str_join sep (g h), []] = str_join sep (f h # g h @ [[]])"
    using g by (simp add: str_join_Cons str_join_append)
  show ?case
  proof (cases "hs = []")
    case True then show ?thesis using c by simp
  next
    case False
    then obtain h' hs' where hs: "hs = h' # hs'" by (cases hs) auto
    have ne1: "concat (map (\<lambda>h. [f h, str_join sep (g h), []]) hs) \<noteq> []" using hs by simp
    have ne2: "concat (map (\<lambda>h. f h # g h @ [[]]) hs) \<noteq> []" using hs by simp
    have "str_join sep (concat (map (\<lambda>h. [f h, str_join sep (g h), []]) (h # hs)))
        = str_join sep ([f h, str_join sep (g h), []] @ concat (map (\<lambda>h. [f h, str_join sep (g h), []]) hs))"
      by simp
    also have "\<dots> = str_join sep [f h, str_join sep (g h), []] @ sep @
          str_join sep (concat (map (\<lambda>h. [f h, str_join sep (g h), []]) hs))"
      using ne1 by (intro str_join_append) simp_all
    also have "\<dots> = str_join sep (f h # g h @ [[]]) @ sep @
          str_join sep (concat (map (\<lambda>h. f h # g h @ [[]]) hs))"
      using c Cons.IH Cons.prems by simp
    also have "\<dots> = str_join sep ((f h # g h @ [[]]) @ concat (map (\<lambda>h. f h # g h @ [[]]) hs))"
      using ne2 by (intro str_join_append[symmetric]) simp_all
    finally show ?thesis by simp
  qed
qed

section \<open>Facts about \<open>split_by_headers\<close>\<close>

lemma dict_set_new: "k \<notin> fst ` set d \<Longrightarrow> dict_set d k v = d @ [(k, v)]"
  by (induction d) auto

lemma init_out_lines:
  "distinct hs \<Longrightarrow> set hs \<inter> fst ` set d = {} \<Longrightarrow>
     foldl (\<lambda>d h. dict_set d h []) d hs = d @ map (\<lambda>h. (h, [])) hs"
proof (induction hs arbitrary: d)
  case Nil then show ?case by simp
next
  case (Cons h hs)
  have h: "h \<notin> fst ` set d" using Cons.prems(2) by auto
  have "set hs \<inter> fst ` set (d @ [(h, [])]) = {}" using Cons.prems by auto
  then have "foldl (\<lambda>d h. dict_set d h []) (d @ [(h, [])]) hs = (d @ [(h, [])]) @ map (\<lambda>h. (h, [])) hs"
    using Cons.prems(1) by (intro Cons.IH) simp
  then show ?case by (simp add: dict_set_new[OF h])
qed

lemma dict_set_map:
  "distinct (map fst d) \<Longrightarrow> dict_get d h = Some old \<Longrightarrow>
     dict_set d h new = map (\<lambda>(k, v). (k, if k = h then new else v)) d"
proof (induction d)
  case Nil then show ?case by (simp add: dict_get_def)
next
  case (Cons p d)
  obtain k v where p: "p = (k, v)" by (cases p)
  show ?case
  proof (cases "k = h")
    case True
    then have "h \<notin> fst ` set d" using Cons.prems(1) p by auto
    then have "map (\<lambda>(k, v). (k, if k = h then new else v)) d = d"
      by (induction d) auto
    then show ?thesis using True p by simp
  next
    case False
    then have "dict_get d h = Some old" using Cons.prems(2) p by (simp add: dict_get_def)
    then show ?thesis using Cons.IH Cons.prems(1) False p by simp
  qed
qed

lemma dict_get_map_fst:
  "dict_get (map (\<lambda>(k, v). (k, f k v)) d) h = map_option (f h) (dict_get d h)"
  by (induction d) (auto simp: dict_get_def)

lemma split_loop_body:
  "\<forall>l\<in>set bs. header_name hs l = None \<Longrightarrow> dict_get out h = Some old \<Longrightarrow>
   distinct (map fst out) \<Longrightarrow>
     split_loop hs (Some h) out (bs @ rest) =
     split_loop hs (Some h) (map (\<lambda>(k, v). (k, if k = h then v @ bs else v)) out) rest"
proof (induction bs arbitrary: out old)
  case Nil
  have "map (\<lambda>(k, v). (k, if k = h then v @ [] else v)) out = out"
    by (induction out) auto
  then show ?case by simp
next
  case (Cons l bs)
  let ?out1 = "map (\<lambda>(k, v). (k, if k = h then old @ [l] else v)) out"
  have s: "dict_set out h (old @ [l]) = ?out1"
    using Cons.prems(3,2) by (rule dict_set_map)
  have g: "dict_get ?out1 h = Some (old @ [l])"
    using dict_get_map_fst[of "\<lambda>k v. if k = h then old @ [l] else v" out h] Cons.prems(2)
    by simp
  have d: "distinct (map fst ?out1)"
    using Cons.prems(3) by (simp add: comp_def case_prod_beta)
  have "split_loop hs (Some h) out ((l # bs) @ rest) = split_loop hs (Some h) ?out1 (bs @ rest)"
    using Cons.prems(1,2) s by simp
  also have "\<dots> = split_loop hs (Some h)
       (map (\<lambda>(k, v). (k, if k = h then v @ bs else v)) ?out1) rest"
    using Cons.prems(1) g d by (intro Cons.IH) simp_all
  also have "map (\<lambda>(k, v). (k, if k = h then v @ bs else v)) ?out1
       = map (\<lambda>(k, v). (k, if k = h then v @ l # bs else v)) out"
  proof -
    have "\<And>k v. (k, v) \<in> set out \<Longrightarrow> k = h \<Longrightarrow> v = old"
      using Cons.prems(2,3) by (auto simp: dict_get_def)
    then show ?thesis by (auto simp: case_prod_beta)
  qed
  finally show ?case .
qed

lemma split_loop_chunks:
  "distinct hs \<Longrightarrow> distinct (map fst out) \<Longrightarrow> set hs \<subseteq> fst ` set out \<Longrightarrow>
   \<forall>h\<in>set hs. header_name headers (h @ '':'') = Some h \<and>
      (\<forall>l\<in>set (bs h). header_name headers l = None) \<Longrightarrow>
     split_loop headers cur out (concat (map (\<lambda>h. (h @ '':'') # bs h) hs)) =
     Inr (map (\<lambda>(k, v). (k, if k \<in> set hs then v @ bs k else v)) out)"
proof (induction hs arbitrary: out cur)
  case Nil
  have "map (\<lambda>(k, v). (k, v)) out = out" by (induction out) auto
  then show ?case by simp
next
  case (Cons h hs)
  let ?rest = "concat (map (\<lambda>h. (h @ '':'') # bs h) hs)"
  let ?out1 = "map (\<lambda>(k, v). (k, if k = h then v @ bs h else v)) out"
  from Cons.prems(3) obtain old where old: "dict_get out h = Some old"
    using Cons.prems(2) by (auto simp: dict_get_def)
  have hn: "header_name headers (h @ '':'') = Some h"
    and bn: "\<forall>l\<in>set (bs h). header_name headers l = None"
    using Cons.prems(4) by simp_all
  have "split_loop headers cur out (concat (map (\<lambda>h. (h @ '':'') # bs h) (h # hs)))
      = split_loop headers (Some h) out (bs h @ ?rest)"
    using hn by simp
  also have "\<dots> = split_loop headers (Some h) ?out1 ?rest"
    using bn old Cons.prems(2) by (rule split_loop_body)
  also have "\<dots> = Inr (map (\<lambda>(k, v). (k, if k \<in> set hs then v @ bs k else v)) ?out1)"
  proof (rule Cons.IH)
    show "distinct hs" using Cons.prems(1) by simp
    show "distinct (map fst ?out1)" using Cons.prems(2) by (simp add: comp_def case_prod_beta)
    show "set hs \<subseteq> fst ` set ?out1" using Cons.prems(3) by (force simp: image_iff)
    show "\<forall>h\<in>set hs. header_name headers (h @ '':'') = Some h \<and>
      (\<forall>l\<in>set (bs h). header_name headers l = None)" using Cons.prems(4) by simp
  qed
  also have "map (\<lambda>(k, v). (k, if k \<in> set hs then v @ bs k else v)) ?out1
      = map (\<lambda>(k, v). (k, if k \<in> set (h # hs) then v @ bs k else v)) out"
    using Cons.prems(1) by (auto simp: case_prod_beta)
  finally show ?case .
qed

lemma dict_set_same_value:
  "dict_get d k = Some v \<Longrightarrow> distinct (map fst d) \<Longrightarrow> dict_set d k v = d"
proof (induction d)
  case Nil then show ?case by (simp add: dict_get_def)
next
  case (Cons p d)
  then show ?case by (cases p) (auto simp: dict_get_def split: if_splits)
qed

lemma init_out_lines_general:
  "foldl (\<lambda>d h. dict_set d h []) [] headers = map (\<lambda>h. (h, [])) (first_occurrences headers)"
proof (induction headers rule: rev_induct)
  case Nil then show ?case by (simp add: first_occurrences_def)
next
  case (snoc h hs)
  let ?d = "map (\<lambda>h. (h, [])) (first_occurrences hs)"
  have keys: "map fst ?d = first_occurrences hs" by (simp add: comp_def)
  have dist: "distinct (map fst ?d)" unfolding keys by (simp add: first_occurrences_def)
  show ?case
  proof (cases "h \<in> set hs")
    case True
    then have "dict_get ?d h = Some []"
      by (induction "first_occurrences hs") (auto simp: dict_get_def first_occurrences_def map_of_map_restrict)
    then have "dict_set ?d h [] = ?d" using dist by (rule dict_set_same_value)
    moreover have "first_occurrences (hs @ [h]) = first_occurrences hs"
      using True by (simp add: first_occurrences_def)
    ultimately show ?thesis using snoc by simp
  next
    case False
    then have "h \<notin> fst ` set ?d" by (auto simp: first_occurrences_def)
    then have "dict_set ?d h [] = ?d @ [(h, [])]" by (rule dict_set_new)
    moreover have "first_occurrences (hs @ [h]) = first_occurrences hs @ [h]"
      using False by (simp add: first_occurrences_def)
    ultimately show ?thesis using snoc by simp
  qed
qed

lemma header_name_in_headers:
  "\<forall>h\<in>set headers. strip h = h \<Longrightarrow> header_name headers line = Some name \<Longrightarrow> name \<in> set headers"
  by (auto simp: header_name_def Let_def split: if_splits)

lemma split_loop_sections:
  "\<forall>h\<in>set headers. strip h = h \<Longrightarrow> distinct (map fst out) \<Longrightarrow> fst ` set out = set headers \<Longrightarrow>
   (case cur of None \<Rightarrow> True | Some c \<Rightarrow> c \<in> set headers) \<Longrightarrow>
     split_loop headers cur out lines =
     Inr (map (\<lambda>(k, v). (k, v @ section_lines headers k (cur = Some k) lines)) out)"
proof (induction lines arbitrary: cur out)
  case Nil
  have "map (\<lambda>(k, v). (k, v @ [])) out = out" by (induction out) auto
  then show ?case by simp
next
  case (Cons line rest)
  show ?case
  proof (cases "header_name headers line")
    case (Some name)
    then have "name \<in> set headers" using Cons.prems(1) header_name_in_headers by blast
    then have "split_loop headers (Some name) out rest =
       Inr (map (\<lambda>(k, v). (k, v @ section_lines headers k (Some name = Some k) rest)) out)"
      using Cons.prems by (intro Cons.IH) simp_all
    then show ?thesis using Some by simp
  next
    case None
    show ?thesis
    proof (cases cur)
      case cn: None
      have "split_loop headers None out rest =
         Inr (map (\<lambda>(k, v). (k, v @ section_lines headers k (None = Some k) rest)) out)"
        using Cons.prems(1,2,3) by (intro Cons.IH) simp_all
      then show ?thesis using None cn by simp
    next
      case (Some c)
      then have cin: "c \<in> set headers" using Cons.prems(4) by simp
      then obtain old where old: "dict_get out c = Some old"
        using Cons.prems(2,3) by (force simp: dict_get_def image_iff)
      let ?out1 = "map (\<lambda>(k, v). (k, if k = c then old @ [line] else v)) out"
      have s: "dict_set out c (old @ [line]) = ?out1"
        using Cons.prems(2) old by (rule dict_set_map)
      have "split_loop headers (Some c) ?out1 rest =
         Inr (map (\<lambda>(k, v). (k, v @ section_lines headers k (Some c = Some k) rest)) ?out1)"
      proof (rule Cons.IH)
        show "\<forall>h\<in>set headers. strip h = h" by (rule Cons.prems(1))
        show "distinct (map fst ?out1)" using Cons.prems(2) by (simp add: comp_def case_prod_beta)
        show "fst ` set ?out1 = set headers" using Cons.prems(3) by (force simp: image_iff)
        show "case Some c of None \<Rightarrow> True | Some c \<Rightarrow> c \<in> set headers" using cin by simp
      qed
      moreover have "map (\<lambda>(k, v). (k, v @ section_lines headers k (Some c = Some k) rest)) ?out1
          = map (\<lambda>(k, v). (k, v @ section_lines headers k (Some c = Some k) (line # rest))) out"
      proof -
        have "\<And>k v. (k, v) \<in> set out \<Longrightarrow> k = c \<Longrightarrow> v = old"
          using old Cons.prems(2) by (auto simp: dict_get_def)
        then show ?thesis using None by (auto simp: case_prod_beta)
      qed
      ultimately show ?thesis using None Some old s by simp
    qed
  qed
qed


section \<open>C1: splitting what was joined\<close>

text \<open>
  The round trip as the specification states it fails. With the headers \<open>A\<close> and \<open>B\<close> and
  the body \<open>x\n B :\n y\<close> for \<open>A\<close>, no line of a body is equal to \<open>A:\<close> or to \<open>B:\<close>,
  but \<open>split_by_headers\<close> reads the line \<open>B :\<close> as the header \<open>B\<close>: it trims the name
  once more after it has cut the colon off. The lines of the two bodies are spelled out,
  then what the round trip returns, then what the claim promises.
\<close>

theorem split_join_roundtrip_counterexample:
  "splitlines (''x'' @ [LF] @ ''B :'' @ [LF] @ ''y'') = [''x'', ''B :'', ''y'']
   \<and> splitlines ''z'' = [''z'']
   \<and> split_by_headers
         (join_sections [(''A'', ''x'' @ [LF] @ ''B :'' @ [LF] @ ''y''), (''B'', ''z'')] [''A'', ''B''])
         [''A'', ''B'']
       = Inr [(''A'', ''x''), (''B'', ''y'' @ [LF, LF] @ ''z'')]
   \<and> split_by_headers
         (join_sections [(''A'', ''x'' @ [LF] @ ''B :'' @ [LF] @ ''y''), (''B'', ''z'')] [''A'', ''B''])
         [''A'', ''B'']
       \<noteq> Inr [(''A'', strip (''x'' @ [LF] @ ''B :'' @ [LF] @ ''y'')), (''B'', strip ''z'')]"
  by code_simp

text \<open>
  Three more conditions are needed, each for a reason of its own: a line boundary other
  than \<open>\n\<close> in a body comes back as \<open>\n\<close>; a header that is listed twice gets its body
  twice; a header with a blank around it is looked up under its trimmed name, which is no
  key of the result.
\<close>

lemma roundtrip_other_line_boundary:
  "split_by_headers (join_sections [(''A'', ''x'' @ [CR] @ ''y'')] [''A'']) [''A'']
     = Inr [(''A'', ''x'' @ [LF] @ ''y'')]"
  by code_simp

lemma roundtrip_repeated_header:
  "split_by_headers (join_sections [(''A'', ''x'')] [''A'', ''A'']) [''A'', ''A'']
     = Inr [(''A'', ''x'' @ [LF, LF] @ ''x'')]"
  by code_simp

lemma roundtrip_untrimmed_header:
  "split_by_headers (join_sections [('' A'', ''x'')] ['' A'']) ['' A''] = Inl (KeyError ''A'')"
  by code_simp

text \<open>
  C1, amended. Let the headers be pairwise distinct, each without whitespace at its ends
  and without a line boundary; let every body have \<open>\n\<close> as its only line boundary and,
  once trimmed, no line that \<open>split_by_headers\<close> reads as a header line (a line whose
  trimmed form ends with a colon and whose text before that colon, trimmed again, is a
  header). Then splitting the joined text gives back, header by header and in the order of
  the headers, the trimmed body of each header, the empty text for a header without body.
\<close>

theorem split_join_roundtrip:
  assumes dist: "distinct headers"
    and hdr: "\<forall>h\<in>set headers. strip h = h \<and> no_linebreak h"
    and onlyLF: "\<forall>h\<in>set headers. \<forall>c\<in>set (get_or_empty sections h). is_linebreak c \<longrightarrow> c = LF"
    and nohdr: "\<forall>h\<in>set headers. \<forall>line\<in>set (splitlines (strip (get_or_empty sections h))).
                  header_name headers line = None"
  shows "split_by_headers (join_sections sections headers) headers =
           Inr (map (\<lambda>h. (h, strip (get_or_empty sections h))) headers)"
proof (cases "headers = []")
  case True
  then show ?thesis
    by (simp add: split_by_headers_def join_sections_def strip_def lstrip_def rstrip_def
        splitlines_def)
next
  case False
  then obtain hs' hn where hs: "headers = hs' @ [hn]" by (metis append_butlast_last_id)
  from False obtain h1 tl1 where h1: "headers = h1 # tl1" by (cases headers) auto
  define b where "b = (\<lambda>h. strip (get_or_empty sections h))"
  define bl where "bl = (\<lambda>h. if b h = [] then [[]] else splitlines (b h))"
  define bs where "bs = (\<lambda>h. if h = hn then (if b hn = [] then [] else bl hn) else bl h @ [[]])"
  define E :: "string list" where "E = (if b hn = [] then [[], []] else [[]])"
  define F where "F = concat (map (\<lambda>h. (h @ '':'') # bl h @ [[]]) headers)"
  define W where "W = concat (map (\<lambda>h. (h @ '':'') # bs h) headers)"
  have hn_in: "hn \<in> set headers" using hs by simp
  have sb: "strip (b h) = b h" for h by (simp add: b_def strip_strip)
  have lf: "\<forall>c\<in>set (b h). is_linebreak c \<longrightarrow> c = LF" if "h \<in> set headers" for h
    using onlyLF that set_strip[of "get_or_empty sections h"] by (auto simp: b_def)
  have bl1: "bl h \<noteq> []" and bl2: "str_join [LF] (bl h) = b h"
    and bl3: "list_all no_linebreak (bl h)" and bl4: "b h \<noteq> [] \<Longrightarrow> last (bl h) \<noteq> []"
    if "h \<in> set headers" for h
    using body_lines[OF sb lf[OF that]] unfolding bl_def by simp_all
  have bl5: "\<forall>l\<in>set (bl h). header_name headers l = None" if "h \<in> set headers" for h
    using nohdr that by (auto simp: bl_def b_def header_name_empty)
  have bs5: "\<forall>l\<in>set (bs h). header_name headers l = None" if "h \<in> set headers" for h
    using bl5[OF that] bl5[OF hn_in] by (auto simp: bs_def header_name_empty)
  have bs3: "list_all no_linebreak (bs h)" if "h \<in> set headers" for h
    using bl3[OF that] bl3[OF hn_in] by (auto simp: bs_def no_linebreak_simps)
  have ends: "b h = [] \<or> (\<not> is_space (hd (b h)) \<and> \<not> is_space (last (b h)))" for h
    using strip_ends[of "b h"] sb by simp

  text \<open>the text that is joined, line by line\<close>
  have J: "str_join [LF] (concat (map (\<lambda>h. [h @ '':'', b h, []]) headers)) = str_join [LF] F"
  proof -
    have m: "map (\<lambda>h. [h @ '':'', b h, []]) headers
        = map (\<lambda>h. [h @ '':'', str_join [LF] (bl h), []]) headers"
      using bl2 by simp
    have "str_join [LF] (concat (map (\<lambda>h. [h @ '':'', str_join [LF] (bl h), []]) headers))
        = str_join [LF] (concat (map (\<lambda>h. (h @ '':'') # bl h @ [[]]) headers))"
      using bl1 by (intro str_join_chunks) simp
    then show ?thesis unfolding F_def m .
  qed
  have FW: "F = W @ E"
  proof -
    have "hn \<notin> set hs'" using dist hs by simp
    then have a: "map (\<lambda>h. (h @ '':'') # bl h @ [[]]) hs' = map (\<lambda>h. (h @ '':'') # bs h) hs'"
      by (auto simp: bs_def)
    have c: "(hn @ '':'') # bl hn @ [[]] = ((hn @ '':'') # bs hn) @ E"
      by (simp add: bs_def E_def bl_def)
    have "F = concat (map (\<lambda>h. (h @ '':'') # bl h @ [[]]) hs') @ ((hn @ '':'') # bl hn @ [[]])"
      unfolding F_def hs by simp
    also have "\<dots> = concat (map (\<lambda>h. (h @ '':'') # bs h) hs') @ (((hn @ '':'') # bs hn) @ E)"
      by (simp only: a c)
    also have "\<dots> = W @ E" unfolding W_def hs by simp
    finally show ?thesis .
  qed
  have Wne: "W \<noteq> []" unfolding W_def h1 by simp
  have Wlast: "last W = last ((hn @ '':'') # bs hn)" unfolding W_def hs by simp
  have Wlast_ne: "last W \<noteq> []"
    using Wlast bl4[OF hn_in] bl1[OF hn_in] by (auto simp: bs_def)
  have Wlast_ns: "\<not> is_space (last (last W))"
  proof (cases "b hn = []")
    case True
    then show ?thesis using Wlast by (simp add: bs_def colon_not_space)
  next
    case False
    then have "last W = last (bl hn)" using Wlast bl1[OF hn_in] by (simp add: bs_def)
    moreover have "last (str_join [LF] (bl hn)) = last (last (bl hn))"
      using bl1[OF hn_in] bl4[OF hn_in False] by (rule last_str_join)
    ultimately show ?thesis using bl2[OF hn_in] ends[of hn] False by simp
  qed
  have Whd: "\<exists>ws. W = (h1 @ '':'') # ws" unfolding W_def h1 by simp
  then obtain wtl where wtl: "W = (h1 @ '':'') # wtl" by blast
  have h1_ns: "\<not> is_space (hd (h1 @ '':''))"
  proof -
    have "strip h1 = h1" using hdr h1 by simp
    then have "h1 = [] \<or> \<not> is_space (hd h1)" using strip_ends[of h1] by auto
    then show ?thesis by (cases h1) (auto simp: colon_not_space)
  qed
  have jW_ne: "str_join [LF] W \<noteq> []" using Wne Wlast_ne by (rule str_join_nonempty)
  have jW_hd: "\<not> is_space (hd (str_join [LF] W))"
    using h1_ns hd_str_join[of "h1 @ '':''" "[LF]" wtl] wtl by simp
  have jW_last: "\<not> is_space (last (str_join [LF] W))"
    using last_str_join[OF Wne Wlast_ne, of "[LF]"] Wlast_ns by simp
  have jW_strip: "strip (str_join [LF] W) = str_join [LF] W"
    using jW_hd jW_last by (intro strip_id) simp
  have jF: "\<exists>ws. str_join [LF] F = str_join [LF] W @ ws \<and> (\<forall>c\<in>set ws. is_space c)"
  proof -
    have "str_join [LF] F = str_join [LF] W @ [LF] @ str_join [LF] E"
      unfolding FW using Wne by (intro str_join_append) (simp_all add: E_def)
    moreover have "\<forall>c\<in>set ([LF] @ str_join [LF] E). is_space c"
      by (simp add: E_def LF_space)
    ultimately show ?thesis by (metis append_assoc)
  qed
  have T: "join_sections sections headers = str_join [LF] W"
  proof -
    obtain ws where ws: "str_join [LF] F = str_join [LF] W @ ws" "\<forall>c\<in>set ws. is_space c"
      using jF by blast
    have "join_sections sections headers = strip (str_join [LF] F)"
      unfolding join_sections_def using J by (simp add: b_def)
    also have "\<dots> = str_join [LF] W" unfolding ws(1) using jW_strip ws(2) by (rule strip_body_sep)
    finally show ?thesis .
  qed
  have lines: "splitlines (join_sections sections headers) = W"
  proof -
    have "list_all no_linebreak W"
      using bs3 hdr unfolding W_def by (auto simp: list_all_iff no_linebreak_simps no_linebreak_def is_linebreak_def)
    then have "\<forall>l\<in>set ((h1 @ '':'') # wtl). \<forall>c\<in>set l. \<not> is_linebreak c"
      unfolding wtl by (simp add: list_all_iff no_linebreak_def)
    moreover have "last ((h1 @ '':'') # wtl) \<noteq> []" using Wlast_ne wtl by simp
    ultimately have "splitlines_aux False [] (str_join [LF] ((h1 @ '':'') # wtl)) = (h1 @ '':'') # wtl"
      by (rule splitlines_join)
    then show ?thesis unfolding T splitlines_def wtl .
  qed
  have init: "foldl (\<lambda>d h. dict_set d h []) [] headers = map (\<lambda>h. (h, [])) headers"
    using init_out_lines[OF dist, of "[]"] by simp
  have loop: "split_loop headers None (map (\<lambda>h. (h, [])) headers) W
      = Inr (map (\<lambda>(k, v). (k, if k \<in> set headers then v @ bs k else v)) (map (\<lambda>h. (h, [])) headers))"
    unfolding W_def
  proof (rule split_loop_chunks)
    show "distinct headers" by (rule dist)
    show "distinct (map fst (map (\<lambda>h. (h, [])) headers))" using dist by (simp add: comp_def)
    show "set headers \<subseteq> fst ` set (map (\<lambda>h. (h, [])) headers)" by force
    show "\<forall>h\<in>set headers. header_name headers (h @ '':'') = Some h \<and>
        (\<forall>l\<in>set (bs h). header_name headers l = None)"
      using hdr bs5 header_name_header by blast
  qed
  have fin: "strip (str_join [LF] (bs h)) = b h" if "h \<in> set headers" for h
  proof (cases "h = hn \<and> b hn = []")
    case True
    then show ?thesis by (simp add: bs_def strip_def lstrip_def rstrip_def)
  next
    case False
    show ?thesis
    proof (cases "h = hn")
      case True
      then show ?thesis using False bl2[OF hn_in] sb by (simp add: bs_def)
    next
      case False
      then have "str_join [LF] (bs h) = b h @ [LF]"
        using bl1[OF that] bl2[OF that] by (simp add: bs_def str_join_append)
      then show ?thesis using strip_body_sep[OF sb, of "[LF]" h] by (simp add: LF_space)
    qed
  qed
  show ?thesis
    unfolding split_by_headers_def Let_def lines init loop
    using fin by (simp add: comp_def b_def)
qed

theorem split_join_roundtrip_witness:
  "split_by_headers
     (join_sections [(''Objective'', '' x ''), (''Conclusion'', ''y:'' @ [LF] @ ''z'')]
        [''Objective'', ''Conclusion''])
     [''Objective'', ''Conclusion'']
   = Inr [(''Objective'', ''x''), (''Conclusion'', ''y:'' @ [LF] @ ''z'')]"
proof -
  let ?H = "[''Objective'', ''Conclusion'']"
  let ?S = "[(''Objective'', '' x ''), (''Conclusion'', ''y:'' @ [LF] @ ''z'')]"
  have h1: "distinct ?H" by simp
  have h2: "\<forall>h\<in>set ?H. strip h = h \<and> no_linebreak h" by code_simp
  have h3: "\<forall>h\<in>set ?H. \<forall>c\<in>set (get_or_empty ?S h). is_linebreak c \<longrightarrow> c = LF"
    by code_simp
  have h4: "\<forall>h\<in>set ?H. \<forall>line\<in>set (splitlines (strip (get_or_empty ?S h))).
              header_name ?H line = None"
    by code_simp
  have v: "map (\<lambda>h. (h, strip (get_or_empty ?S h))) ?H
             = [(''Objective'', ''x''), (''Conclusion'', ''y:'' @ [LF] @ ''z'')]"
    by code_simp
  have "split_by_headers (join_sections ?S ?H) ?H
          = Inr (map (\<lambda>h. (h, strip (get_or_empty ?S h))) ?H)"
    using h1 h2 h3 h4 by (rule split_join_roundtrip)
  then show ?thesis using v by simp
qed

section \<open>C4: what \<open>split_by_headers\<close> returns\<close>

text \<open>
  As the specification words it, a header line is a line whose trimmed form is equal to a
  header followed by a colon. The source cuts the colon off and trims once more, so the
  line \<open>A :\<close> opens the section \<open>A\<close>: the source files the line \<open>x\<close> under \<open>A\<close>, the
  specification's reading leaves \<open>A\<close> empty.
\<close>

theorem split_by_headers_spec_counterexample:
  "split_by_headers (''A :'' @ [LF] @ ''x'') [''A''] = Inr [(''A'', ''x'')]
   \<and> spec_split_by_headers (''A :'' @ [LF] @ ''x'') [''A''] = [(''A'', [])]"
  by code_simp

text \<open>
  Without the condition on the headers below, a header with a blank at an end is looked up
  under its trimmed name, which is no key of the result.
\<close>

lemma split_by_headers_untrimmed_header:
  "split_by_headers (''A:'' @ [LF] @ ''x'') ['' A''] = Inl (KeyError ''A'')"
  by code_simp

text \<open>
  C4, amended. For headers without whitespace at their ends, \<open>split_by_headers\<close> opens a
  new section at exactly the lines whose trimmed form ends with a colon and whose text
  before that colon, trimmed again, is one of the headers; the lines that follow, up to
  the next such line, are the body of that section, and the lines before the first such
  line belong to no section. The result maps every header, once and in the order of the
  list, to its body, joined by \<open>\n\<close> and trimmed: the empty text for a header that is
  never seen.
\<close>

theorem split_by_headers_sections:
  assumes "\<forall>h\<in>set headers. strip h = h"
  shows "split_by_headers report_text headers =
           Inr (map (\<lambda>h. (h, strip (str_join [LF]
                         (section_lines headers h False (splitlines report_text)))))
                  (first_occurrences headers))"
proof -
  let ?out = "map (\<lambda>h. (h, [])) (first_occurrences headers)"
  have "split_loop headers None ?out (splitlines report_text) =
      Inr (map (\<lambda>(k, v). (k, v @ section_lines headers k (None = Some k) (splitlines report_text))) ?out)"
  proof (rule split_loop_sections)
    show "\<forall>h\<in>set headers. strip h = h" by (rule assms)
    show "distinct (map fst ?out)" by (simp add: comp_def first_occurrences_def)
    show "fst ` set ?out = set headers" by (force simp: first_occurrences_def image_iff)
    show "case None of None \<Rightarrow> True | Some c \<Rightarrow> c \<in> set headers" by simp
  qed
  then show ?thesis
    by (simp add: split_by_headers_def init_out_lines_general comp_def)
qed


theorem split_by_headers_sections_witness:
  "split_by_headers
     (''intro'' @ [LF] @ '' Objective :'' @ [LF] @ ''x'' @ [LF] @ ''Objectives:'' @ [LF] @ ''y''
        @ [LF] @ ''Conclusion:'')
     [''Objective'', ''Method'', ''Conclusion'', ''Objective'']
   = Inr [(''Objective'', ''x'' @ [LF] @ ''Objectives:'' @ [LF] @ ''y''), (''Method'', []),
          (''Conclusion'', [])]"
proof -
  let ?H = "[''Objective'', ''Method'', ''Conclusion'', ''Objective'']"
  let ?T = "''intro'' @ [LF] @ '' Objective :'' @ [LF] @ ''x'' @ [LF] @ ''Objectives:'' @ [LF]
              @ ''y'' @ [LF] @ ''Conclusion:''"
  have h: "\<forall>h\<in>set ?H. strip h = h" by code_simp
  have v: "map (\<lambda>h. (h, strip (str_join [LF] (section_lines ?H h False (splitlines ?T)))))
             (first_occurrences ?H)
           = [(''Objective'', ''x'' @ [LF] @ ''Objectives:'' @ [LF] @ ''y''), (''Method'', []),
              (''Conclusion'', [])]"
    by code_simp
  show ?thesis using split_by_headers_sections[OF h, of ?T] v by simp
qed

text \<open>
  What the lines of a section are: none for a header that no line names; the lines before
  the first header line count for nothing; and the lines between a header line of \<open>h\<close> and
  the next header line, of another header, are lines of \<open>h\<close>.
\<close>

lemma section_lines_never_seen:
  "\<forall>line\<in>set lines. header_name headers line \<noteq> Some h \<Longrightarrow>
     section_lines headers h False lines = []"
proof (induction lines)
  case Nil then show ?case by simp
next
  case (Cons line rest)
  then show ?case by (cases "header_name headers line") auto
qed

lemma section_lines_before_first_header:
  "\<forall>line\<in>set before. header_name headers line = None \<Longrightarrow>
     section_lines headers h False (before @ rest) = section_lines headers h False rest"
  by (induction before) auto

lemma section_lines_body:
  "header_name headers header_line = Some h \<Longrightarrow>
   \<forall>line\<in>set body. header_name headers line = None \<Longrightarrow>
   header_name headers next_line = Some h' \<Longrightarrow> h' \<noteq> h \<Longrightarrow>
     section_lines headers h active (header_line # body @ next_line # rest)
       = body @ section_lines headers h False rest"
proof -
  assume b: "\<forall>line\<in>set body. header_name headers line = None"
    and n: "header_name headers next_line = Some h'" "h' \<noteq> h"
  have "section_lines headers h True (body @ next_line # rest)
          = body @ section_lines headers h False rest"
    using b n by (induction body) auto
  moreover assume "header_name headers header_line = Some h"
  ultimately show ?thesis by simp
qed

section \<open>C7: the required terms of a section\<close>

lemma lower_eq_Nil: "lower s = [] \<longleftrightarrow> s = []"
  by (simp add: lower_def)


text \<open>
  As stated, the claim covers a section whose configured list of terms is empty: its body
  contains none of the configured terms, yet the source guards the issue with
  \<open>if terms and not any(...)\<close> and lets the report pass.
\<close>

theorem missing_term_counterexample:
  "evaluate_report_quality (''Discussion:'' @ [LF] @ ''some text'')
     ((plain_cfg [''Discussion''])
        \<lparr>quality := \<lparr>min_words = [], required_terms_by_section = [(''Discussion'', [])],
                      required_global_terms = []\<rparr>\<rparr>)
   = Inr \<lparr>q_ok = True, q_issues = [], q_sections = [(''Discussion'', ''some text'')]\<rparr>"
  by code_simp

text \<open>
  C7, amended. For every section with a configured required-term list that is not empty:
  if the body of that section, as \<open>split_by_headers\<close> returns it, is not empty and
  contains none of the terms (both in lower case, as a substring), then
  \<open>evaluate_report_quality\<close> returns \<open>ok = False\<close> with a \<open>missing_term\<close> issue for that
  section. The witness is the scenario of the claim: the term \<open>limitation\<close> required in
  \<open>Discussion\<close>, two words in \<open>Results\<close>.
\<close>

theorem missing_term_issue:
  assumes fmt: "writer_format cfg \<noteq> []"
    and split: "split_by_headers report_text (writer_format cfg) = Inr sections"
    and conf: "(sec, terms) \<in> set (required_terms_by_section (quality cfg))"
    and terms: "terms \<noteq> []"
    and body: "get_or_empty sections sec \<noteq> []"
    and none: "\<forall>t\<in>set terms. \<not> contains (lower (get_or_empty sections sec)) (lower t)"
  shows "\<exists>q. evaluate_report_quality report_text cfg = Inr q \<and> \<not> q_ok q \<and>
           \<lparr>kind = ''missing_term'', sect = sec,
            detail = ''Section '' @ [CHR 0x27] @ sec @ [CHR 0x27]
              @ '' should mention at least one of: '' @ str_join '', '' (map lower terms) @ ''.''\<rparr>
           \<in> set (q_issues q)"
proof -
  let ?i = "\<lparr>kind = ''missing_term'', sect = sec,
            detail = ''Section '' @ [CHR 0x27] @ sec @ [CHR 0x27]
              @ '' should mention at least one of: '' @ str_join '', '' (map lower terms) @ ''.''\<rparr>"
  have one: "missing_term_issues sections (sec, terms) = [?i]"
    using terms body none by (simp add: missing_term_issues_def lower_eq_Nil list_ex_iff)
  have "?i \<in> set (concat (map (missing_term_issues sections)
                      (required_terms_by_section (quality cfg))))"
    using conf one by (auto intro!: bexI[of _ "(sec, terms)"])
  then show ?thesis
    using fmt split by (auto simp: evaluate_report_quality_def Let_def)
qed


theorem missing_term_issue_witness:
  "\<exists>q. evaluate_report_quality scenario_report scenario_cfg = Inr q \<and> \<not> q_ok q \<and>
     \<lparr>kind = ''missing_term'', sect = ''Discussion'',
      detail = ''Section '' @ [CHR 0x27] @ ''Discussion'' @ [CHR 0x27]
              @ '' should mention at least one of: limitation.''\<rparr> \<in> set (q_issues q)"
proof -
  let ?S = "[(''Results'', ''Good data summary.''),
             (''Discussion'', ''This section is present but lacks expected wording.'')]"
  have fmt: "writer_format scenario_cfg \<noteq> []" by code_simp
  have split: "split_by_headers scenario_report (writer_format scenario_cfg) = Inr ?S"
    by code_simp
  have conf: "(''Discussion'', [''limitation'']) \<in> set (required_terms_by_section (quality scenario_cfg))"
    by code_simp
  have terms: "[''limitation''] \<noteq> []" by simp
  have body: "get_or_empty ?S ''Discussion'' \<noteq> []" by code_simp
  have none: "\<forall>t\<in>set [''limitation'']. \<not> contains (lower (get_or_empty ?S ''Discussion'')) (lower t)"
    by code_simp
  have l: "str_join '', '' (map lower [''limitation'']) = ''limitation''" by code_simp
  show ?thesis using missing_term_issue[OF fmt split conf terms body none] l by simp
qed


section \<open>Facts about the steps of \<open>run_pipeline\<close>\<close>

lemma bindM_cases:
  assumes "bindM m f w = (res, w', tr)"
  obtains (raised) e where "m w = (Inl e, w', tr)" "res = Inl e"
  | (returned) x w1 t1 t2 where "m w = (Inr x, w1, t1)" "f x w1 = (res, w', t2)" "tr = t1 @ t2"
  using assms unfolding bindM_def by (auto split: prod.splits sum.splits)

lemma returnM_eq: "returnM x w = (res, w', tr) \<longleftrightarrow> res = Inr x \<and> w' = w \<and> tr = []"
  by (auto simp: returnM_def)

lemma raiseM_eq: "raiseM e w = (res, w', tr) \<longleftrightarrow> res = Inl e \<and> w' = w \<and> tr = []"
  by (auto simp: raiseM_def)

lemma check_cancel_cases:
  assumes "check_cancel args w = (res, w', tr)"
  obtains (cancelled) "res = Inl (CancelledError ''Job canceled by user.'')" "tr = [CancelCheck True]"
  | (goes_on) "res = Inr ()" "quiet tr"
  using assms unfolding check_cancel_def quiet_def
  by (auto split: option.splits prod.splits bool.splits)

lemma progress_eq:
  "progress args n p w = (res, w', tr) \<Longrightarrow> res = Inr () \<and> quiet tr"
  unfolding progress_def quiet_def by (auto split: option.splits)

lemma invoke_eq:
  "invoke s run w = (res, w', tr) \<Longrightarrow> \<exists>r. run w = (r, w') \<and> res = Inr r \<and> tr = [Invoke s r]"
  unfolding invoke_def by (auto split: prod.splits)

lemma quiet_append: "quiet (a @ b) \<longleftrightarrow> quiet a \<and> quiet b"
  by (simp add: quiet_def)

lemma quiet_Nil: "quiet []"
  by (simp add: quiet_def)

lemma guarded_call_cases:
  assumes "bindM (check_cancel args) (\<lambda>_. bindM (progress args n p) (\<lambda>_. bindM (invoke s run) k)) w
             = (res, w', tr)"
  obtains (cancelled) "res = Inl (CancelledError ''Job canceled by user.'')" "tr = [CancelCheck True]"
  | (called) q r w1 t2 where "quiet q" "k r w1 = (res, w', t2)" "tr = q @ Invoke s r # t2"
  using assms
proof (cases rule: bindM_cases)
  case (raised e)
  then show ?thesis using cancelled by (cases rule: check_cancel_cases) auto
next
  case (returned x w1 t1 t2)
  from returned(1) have q1: "quiet t1" by (cases rule: check_cancel_cases) auto
  from returned(2) show ?thesis
  proof (cases rule: bindM_cases)
    case (raised e)
    then show ?thesis using progress_eq by fastforce
  next
    case (returned y w2 t3 t4)
    from returned(1) have q3: "quiet t3" using progress_eq by fastforce
    from returned(2) show ?thesis
    proof (cases rule: bindM_cases)
      case (raised e)
      then show ?thesis using invoke_eq by fastforce
    next
      case (returned r w3 t5 t6)
      from returned(1) have t5: "t5 = [Invoke s r]" using invoke_eq by fastforce
      have "tr = (t1 @ t3) @ Invoke s r # t6"
        using \<open>tr = t1 @ t2\<close> \<open>t2 = t3 @ t4\<close> \<open>t4 = t5 @ t6\<close> t5 by simp
      moreover have "quiet (t1 @ t3)" using q1 q3 by (simp add: quiet_append)
      ultimately show ?thesis using called returned(2) by blast
    qed
  qed
qed

lemma checked_call_cases:
  assumes "bindM (check_cancel args) (\<lambda>_. bindM (progress args n p) (\<lambda>_. bindM (invoke s run)
             (\<lambda>r. if \<not> ok r then raiseM (step_error name r) else returnM r))) w = (res, w', tr)"
  obtains (cancelled) "res = Inl (CancelledError ''Job canceled by user.'')" "tr = [CancelCheck True]"
  | (failed) q r where "quiet q" "\<not> ok r" "res = Inl (step_error name r)" "tr = q @ [Invoke s r]"
  | (succeeded) q r where "quiet q" "ok r" "res = Inr r" "tr = q @ [Invoke s r]"
  using assms
proof (cases rule: guarded_call_cases)
  case cancelled
  then show ?thesis using that(1) by simp
next
  case (called q r w1 t2)
  show ?thesis
  proof (cases "ok r")
    case True
    then show ?thesis using called that(3)[of q r] by (simp add: returnM_eq)
  next
    case False
    then show ?thesis using called that(2)[of q r] by (simp add: raiseM_eq)
  qed
qed



lemma research_phase_cases:
  assumes "research_phase env args c w = (res, w', tr)"
  obtains (cancelled) "res = Inl (CancelledError ''Job canceled by user.'')" "tr = [CancelCheck True]"
  | (failed) q r where "quiet q" "\<not> ok r" "res = Inl (step_error ''research'' r)"
      "tr = q @ [Invoke StepResearch r]"
  | (succeeded) q r where "quiet q" "ok r" "res = Inr r" "tr = q @ [Invoke StepResearch r]"
  using assms unfolding research_phase_def
  by (elim checked_call_cases) (blast intro: that)+

lemma data_phase_cases:
  assumes "data_phase env args c w = (res, w', tr)"
  obtains (cancelled) "res = Inl (CancelledError ''Job canceled by user.'')" "tr = [CancelCheck True]"
  | (failed) q r where "quiet q" "\<not> ok r" "res = Inl (step_error ''data'' r)"
      "tr = q @ [Invoke StepData r]"
  | (succeeded) q r where "quiet q" "ok r" "res = Inr r" "tr = q @ [Invoke StepData r]"
  using assms unfolding data_phase_def
  by (elim checked_call_cases) (blast intro: that)+

lemma writer_phase_cases:
  assumes "writer_phase env args c w = (res, w', tr)"
  obtains (cancelled) "res = Inl (CancelledError ''Job canceled by user.'')" "tr = [CancelCheck True]"
  | (failed) q r where "quiet q" "\<not> ok r" "res = Inl (step_error ''writer'' r)"
      "tr = q @ [Invoke StepWrite r]"
  | (succeeded) q r where "quiet q" "ok r" "res = Inr r" "tr = q @ [Invoke StepWrite r]"
  using assms unfolding writer_phase_def
  by (elim checked_call_cases) (blast intro: that)+

lemma repair_phase_cases:
  assumes "repair_phase env args c2 merged cur w = (res, w', tr)"
  obtains (skipped) "writer_format (a_template_cfg args) = [] \<or>
        missing_sections (writer_format (a_template_cfg args)) (snd cur) = []"
      "res = Inr cur" "tr = []"
  | (cancelled) "writer_format (a_template_cfg args) \<noteq> []"
      "missing_sections (writer_format (a_template_cfg args)) (snd cur) \<noteq> []"
      "res = Inl (CancelledError ''Job canceled by user.'')" "tr = [CancelCheck True]"
  | (repaired) q w2 where "writer_format (a_template_cfg args) \<noteq> []"
      "missing_sections (writer_format (a_template_cfg args)) (snd cur) \<noteq> []"
      "quiet q" "res = Inr (accept_rewrite w2 cur)" "tr = q @ [Invoke StepWriteRepair w2]"
proof (cases "writer_format (a_template_cfg args) \<noteq> [] \<and>
      missing_sections (writer_format (a_template_cfg args)) (snd cur) \<noteq> []")
  case False
  then show ?thesis using assms skipped by (auto simp: repair_phase_def Let_def returnM_eq)
next
  case True
  then have "bindM (check_cancel args) (\<lambda>_. bindM (progress args ''writer_repair'' 65) (\<lambda>_.
      bindM (invoke StepWriteRepair (writer_run env (a_job_id args)
         (c2\<lparr>extra_instructions := strip (merged @ [LF, LF]
            @ repair_prompt (missing_sections (writer_format (a_template_cfg args)) (snd cur))
                (a_template_cfg args))\<rparr>)))
        (\<lambda>w2. returnM (accept_rewrite w2 cur)))) w = (res, w', tr)"
    using assms by (simp add: repair_phase_def Let_def)
  then show ?thesis
  proof (cases rule: guarded_call_cases)
    case cancelled
    then show ?thesis using True that(2) by simp
  next
    case (called q r w1 t2)
    then show ?thesis using True that(3)[of q r] by (simp add: returnM_eq)
  qed
qed

lemma review_phase_cases:
  assumes "review_phase env args report_text w = (res, w', tr)"
  obtains (skipped) "\<not> (a_include_review args \<and> include_review (a_template_cfg args) = Some True)"
      "res = Inr ([], None)" "tr = []"
  | (cancelled) "res = Inl (CancelledError ''Job canceled by user.'')" "tr = [CancelCheck True]"
  | (reviewed) q rv where "quiet q" "tr = q @ [Invoke StepReview rv]"
      "res = Inr (if ok rv then get_or [] (p_review_text (payload rv)) else [], Some rv)"
proof (cases "a_include_review args \<and> include_review (a_template_cfg args) = Some True")
  case False
  then show ?thesis using assms skipped by (auto simp: review_phase_def Let_def returnM_eq)
next
  case True
  then have "bindM (check_cancel args) (\<lambda>_. bindM (progress args ''reviewer'' 75) (\<lambda>_.
      bindM (invoke StepReview (reviewer_run env (a_job_id args)
               \<lparr>rc_report_text = report_text, rc_template_cfg = a_template_cfg args\<rparr>))
        (\<lambda>rv. returnM (if ok rv then (case p_review_text (payload rv) of None \<Rightarrow> [] | Some t \<Rightarrow> t)
                    else [], Some rv)))) w = (res, w', tr)"
    using assms by (simp add: review_phase_def Let_def)
  then show ?thesis
  proof (cases rule: guarded_call_cases)
    case cancelled
    then show ?thesis using that(2) by simp
  next
    case (called q r w1 t2)
    then show ?thesis using that(3)[of q r] by (simp add: returnM_eq get_or_def)
  qed
qed

lemma diagram_phase_cases:
  assumes "diagram_phase env args theory data_sum w = (res, w', tr)"
  obtains (skipped) "include_figures (a_template_cfg args) = Some False \<or> data_sum = []"
      "res = Inr ([], None)" "tr = []"
  | (cancelled) "include_figures (a_template_cfg args) \<noteq> Some False" "data_sum \<noteq> []"
      "res = Inl (CancelledError ''Job canceled by user.'')" "tr = [CancelCheck True]"
  | (drawn) q dg where "include_figures (a_template_cfg args) \<noteq> Some False" "data_sum \<noteq> []"
      "quiet q" "tr = q @ [Invoke StepDiagram dg]"
      "res = Inr (if ok dg then get_or [] (p_figures_text (payload dg)) else [], Some dg)"
proof (cases "(case include_figures (a_template_cfg args) of None \<Rightarrow> True | Some b \<Rightarrow> b) \<and> data_sum \<noteq> []")
  case False
  then show ?thesis using assms skipped
    by (auto simp: diagram_phase_def Let_def returnM_eq split: option.splits)
next
  case True
  then have en: "include_figures (a_template_cfg args) \<noteq> Some False" "data_sum \<noteq> []"
    by (auto split: option.splits)
  from True have "bindM (check_cancel args) (\<lambda>_. bindM (progress args ''diagram'' 85) (\<lambda>_.
      bindM (invoke StepDiagram (diagram_run env (a_job_id args)
               \<lparr>dc_theory_text = theory, dc_data_summary = data_sum,
                dc_template_cfg = a_template_cfg args\<rparr>))
        (\<lambda>dg. returnM (if ok dg then (case p_figures_text (payload dg) of None \<Rightarrow> [] | Some t \<Rightarrow> t)
                    else [], Some dg)))) w = (res, w', tr)"
    using assms by (simp add: diagram_phase_def Let_def)
  then show ?thesis
  proof (cases rule: guarded_call_cases)
    case cancelled
    then show ?thesis using en that(2) by simp
  next
    case (called q r w1 t2)
    then show ?thesis using en that(3)[of q r] by (simp add: returnM_eq get_or_def)
  qed
qed

lemma liftE_eq: "liftE r w = (res, w', tr) \<longleftrightarrow> res = r \<and> w' = w \<and> tr = []"
  by (cases r) (auto simp: liftE_def returnM_eq raiseM_eq)

lemma quality_phase_cases:
  assumes "quality_phase env args c2 merged cur w = (res, w', tr)"
  obtains (raised) e where "evaluate_report_quality (fst cur) (a_template_cfg args) = Inl e"
      "res = Inl e" "tr = []"
  | (passed) q where "evaluate_report_quality (fst cur) (a_template_cfg args) = Inr q" "q_ok q"
      "res = Inr (cur, q)" "tr = []"
  | (fixed) q qz wq where "evaluate_report_quality (fst cur) (a_template_cfg args) = Inr q"
      "\<not> q_ok q" "quiet qz" "tr = qz @ [Invoke StepQualityFix wq]"
      "res = map_sum id (\<lambda>q'. (accept_rewrite wq cur, q'))
               (evaluate_report_quality (fst (accept_rewrite wq cur)) (a_template_cfg args))"
proof -
  have "bindM (liftE (evaluate_report_quality (fst cur) (a_template_cfg args))) (\<lambda>quality.
         if \<not> q_ok quality then
           bindM (progress args ''quality_fix'' 88) (\<lambda>_.
           bindM (invoke StepQualityFix (writer_run env (a_job_id args)
                   (c2\<lparr>extra_instructions := strip (merged @ [LF, LF]
                      @ build_quality_fix_prompt (q_issues quality) (a_template_cfg args))\<rparr>))) (\<lambda>wq.
              bindM (liftE (evaluate_report_quality (fst (accept_rewrite wq cur)) (a_template_cfg args)))
                (\<lambda>quality'. returnM (accept_rewrite wq cur, quality'))))
         else returnM (cur, quality)) w = (res, w', tr)"
    using assms unfolding quality_phase_def Let_def .
  then show ?thesis
  proof (cases rule: bindM_cases)
    case (raised e)
    then show ?thesis using that(1)[of e] by (simp add: liftE_eq)
  next
    case (returned q w1 t1 t2)
    then have ev: "evaluate_report_quality (fst cur) (a_template_cfg args) = Inr q" "w1 = w" "t1 = []"
      by (simp_all add: liftE_eq)
    show ?thesis
    proof (cases "q_ok q")
      case True
      then show ?thesis using returned ev that(2)[of q] by (simp add: returnM_eq)
    next
      case False
      then have "bindM (progress args ''quality_fix'' 88) (\<lambda>_.
           bindM (invoke StepQualityFix (writer_run env (a_job_id args)
                   (c2\<lparr>extra_instructions := strip (merged @ [LF, LF]
                      @ build_quality_fix_prompt (q_issues q) (a_template_cfg args))\<rparr>))) (\<lambda>wq.
              bindM (liftE (evaluate_report_quality (fst (accept_rewrite wq cur)) (a_template_cfg args)))
                (\<lambda>quality'. returnM (accept_rewrite wq cur, quality')))) w1 = (res, w', t2)"
        using returned(2) by simp
      then show ?thesis
      proof (cases rule: bindM_cases)
        case (raised e)
        then show ?thesis using progress_eq by fastforce
      next
        case (returned y w2 t3 t4)
        from returned(1) have q3: "quiet t3" using progress_eq by fastforce
        from returned(2) show ?thesis
        proof (cases rule: bindM_cases)
          case (raised e)
          then show ?thesis using invoke_eq by fastforce
        next
          case (returned wq w3 t5 t6)
          from returned(1) have t5: "t5 = [Invoke StepQualityFix wq]" using invoke_eq by fastforce
          have r: "res = map_sum id (\<lambda>q'. (accept_rewrite wq cur, q'))
               (evaluate_report_quality (fst (accept_rewrite wq cur)) (a_template_cfg args))"
            and t6: "t6 = []"
            using returned(2)
            by (cases "evaluate_report_quality (fst (accept_rewrite wq cur)) (a_template_cfg args)";
                simp add: bindM_def liftE_def returnM_def raiseM_def)+
          have "tr = t3 @ [Invoke StepQualityFix wq]"
            using \<open>tr = t1 @ t2\<close> \<open>t2 = t3 @ t4\<close> \<open>t4 = t5 @ t6\<close> t5 t6 ev by simp
          then show ?thesis using that(3)[of q t3 wq] ev False q3 r by simp
        qed
      qed
    qed
  qed
qed

lemma after_writer_cases:
  assumes "after_writer env args r1 d1 w1 c2 m w = (res, w', tr)"
  obtains
    (at_repair) e where
      "repair_phase env args c2 m
         (get_or [] (p_report_text (payload w1)), get_or [] (p_sections (payload w1))) w
         = (Inl e, w', tr)"
      "res = Inl e"
  | (at_review) cur w4 t4 e t5 where
      "repair_phase env args c2 m
         (get_or [] (p_report_text (payload w1)), get_or [] (p_sections (payload w1))) w
         = (Inr cur, w4, t4)"
      "review_phase env args (fst cur) w4 = (Inl e, w', t5)"
      "res = Inl e" "tr = t4 @ t5"
  | (at_diagram) cur w4 t4 rv w5 t5 e t6 where
      "repair_phase env args c2 m
         (get_or [] (p_report_text (payload w1)), get_or [] (p_sections (payload w1))) w
         = (Inr cur, w4, t4)"
      "review_phase env args (fst cur) w4 = (Inr rv, w5, t5)"
      "diagram_phase env args (get_or [] (p_theory_text (payload r1)))
         (get_or [] (p_data_summary (payload d1))) w5 = (Inl e, w', t6)"
      "res = Inl e" "tr = t4 @ t5 @ t6"
  | (at_quality) cur w4 t4 rv w5 t5 dg w6 t6 e t7 where
      "repair_phase env args c2 m
         (get_or [] (p_report_text (payload w1)), get_or [] (p_sections (payload w1))) w
         = (Inr cur, w4, t4)"
      "review_phase env args (fst cur) w4 = (Inr rv, w5, t5)"
      "diagram_phase env args (get_or [] (p_theory_text (payload r1)))
         (get_or [] (p_data_summary (payload d1))) w5 = (Inr dg, w6, t6)"
      "quality_phase env args c2 m cur w6 = (Inl e, w', t7)"
      "res = Inl e" "tr = t4 @ t5 @ t6 @ t7"
  | (finished) cur w4 t4 rv w5 t5 dg w6 t6 cur' q t7 where
      "repair_phase env args c2 m
         (get_or [] (p_report_text (payload w1)), get_or [] (p_sections (payload w1))) w
         = (Inr cur, w4, t4)"
      "review_phase env args (fst cur) w4 = (Inr rv, w5, t5)"
      "diagram_phase env args (get_or [] (p_theory_text (payload r1)))
         (get_or [] (p_data_summary (payload d1))) w5 = (Inr dg, w6, t6)"
      "quality_phase env args c2 m cur w6 = (Inr (cur', q), w', t7)"
      "res = Inr \<lparr>out_theory = get_or [] (p_theory_text (payload r1)),
         out_research_facts = get_or [] (p_research_facts (payload r1)),
         out_data_summary = get_or [] (p_data_summary (payload d1)),
         out_data_highlights = get_or [] (p_data_highlights (payload d1)),
         out_report = fst cur', out_review = fst rv, out_figures = fst dg,
         out_report_sections = snd cur', out_quality = q,
         status_research = r1, status_data = d1, status_writer = w1,
         status_reviewer = snd rv, status_diagram = snd dg\<rparr>"
      "tr = t4 @ t5 @ t6 @ t7"
  using assms unfolding after_writer_def Let_def
proof (cases rule: bindM_cases)
  case (raised e)
  then show ?thesis using at_repair by blast
next
  case a: (returned cur w4 t4 t2)
  from a(2) show ?thesis
  proof (cases rule: bindM_cases)
    case (raised e)
    then show ?thesis using at_review[OF a(1)] a(3) by blast
  next
    case b: (returned rv w5 t5 t3)
    obtain rt rs where rv: "rv = (rt, rs)" by (cases rv)
    from b(2) show ?thesis unfolding rv prod.case
    proof (cases rule: bindM_cases)
      case (raised e)
      then show ?thesis using at_diagram[OF a(1) b(1)] a(3) b(3) by blast
    next
      case c: (returned dg w6 t6 t8)
      obtain ft fs where dg: "dg = (ft, fs)" by (cases dg)
      from c(2) show ?thesis unfolding dg prod.case
      proof (cases rule: bindM_cases)
        case (raised e)
        then show ?thesis using at_quality[OF a(1) b(1) c(1)] a(3) b(3) c(3) by blast
      next
        case d: (returned cq w7 t7 t9)
        obtain cur' q where cq: "cq = (cur', q)" by (cases cq)
        from d(2) have r: "res = Inr \<lparr>out_theory = get_or [] (p_theory_text (payload r1)),
         out_research_facts = get_or [] (p_research_facts (payload r1)),
         out_data_summary = get_or [] (p_data_summary (payload d1)),
         out_data_highlights = get_or [] (p_data_highlights (payload d1)),
         out_report = fst cur', out_review = fst rv, out_figures = fst dg,
         out_report_sections = snd cur', out_quality = q,
         status_research = r1, status_data = d1, status_writer = w1,
         status_reviewer = snd rv, status_diagram = snd dg\<rparr>" and w: "w' = w7" and t9: "t9 = []"
          unfolding cq rv dg by (simp_all add: returnM_eq)
        have "tr = t4 @ t5 @ t6 @ t7" using a(3) b(3) c(3) d(3) t9 by simp
        then show ?thesis using finished[OF a(1) b(1) c(1) _ r] d(1) w cq by blast
      qed
    qed
  qed
qed

lemma run_pipeline_cases:
  assumes "run_pipeline env args w0 = (res, w', tr)"
  obtains
    (research_cancelled)
      "res = Inl (CancelledError ''Job canceled by user.'')" "tr = [CancelCheck True]"
  | (research_failed) q1 r1 where
      "quiet q1" "\<not> ok r1" "res = Inl (step_error ''research'' r1)"
      "tr = q1 @ [Invoke StepResearch r1]"
  | (data_cancelled) q1 r1 where
      "quiet q1" "ok r1" "res = Inl (CancelledError ''Job canceled by user.'')"
      "tr = q1 @ [Invoke StepResearch r1, CancelCheck True]"
  | (data_failed) q1 r1 q2 d1 where
      "quiet q1" "ok r1" "quiet q2" "\<not> ok d1" "res = Inl (step_error ''data'' d1)"
      "tr = q1 @ Invoke StepResearch r1 # q2 @ [Invoke StepData d1]"
  | (writer_cancelled) q1 r1 q2 d1 where
      "quiet q1" "ok r1" "quiet q2" "ok d1" "res = Inl (CancelledError ''Job canceled by user.'')"
      "tr = q1 @ Invoke StepResearch r1 # q2 @ [Invoke StepData d1, CancelCheck True]"
  | (writer_failed) q1 r1 q2 d1 q3 w1 where
      "quiet q1" "ok r1" "quiet q2" "ok d1" "quiet q3" "\<not> ok w1"
      "res = Inl (step_error ''writer'' w1)"
      "tr = q1 @ Invoke StepResearch r1 # q2 @ Invoke StepData d1 # q3 @ [Invoke StepWrite w1]"
  | (written) q1 r1 q2 d1 q3 w1 c2 m w3 t4 where
      "quiet q1" "ok r1" "quiet q2" "ok d1" "quiet q3" "ok w1"
      "after_writer env args r1 d1 w1 c2 m w3 = (res, w', t4)"
      "tr = q1 @ Invoke StepResearch r1 # q2 @ Invoke StepData d1 # q3 @ Invoke StepWrite w1 # t4"
  using assms unfolding run_pipeline_def Let_def
proof (cases rule: bindM_cases)
  case (raised e)
  from raised(1) show ?thesis
  proof (cases rule: research_phase_cases)
    case cancelled
    then show ?thesis using research_cancelled raised(2) by simp
  next
    case (failed q r)
    then show ?thesis using research_failed[OF failed(1,2)] raised(2) by simp
  next
    case (succeeded q r)
    then show ?thesis by simp
  qed
next
  case a: (returned r1 w1 t1 t2)
  from a(1) obtain q1 where r: "quiet q1" "ok r1" "t1 = q1 @ [Invoke StepResearch r1]"
  proof (cases rule: research_phase_cases)
    case cancelled
    then show ?thesis by simp
  next
    case (failed q r)
    then show ?thesis by simp
  next
    case (succeeded q r)
    then show ?thesis using that[of q] by simp
  qed
  from a(2) show ?thesis
  proof (cases rule: bindM_cases)
    case (raised e)
    from raised(1) show ?thesis
    proof (cases rule: data_phase_cases)
      case cancelled
      then show ?thesis using data_cancelled[OF r(1,2)] a(3) r(3) raised(2) by simp
    next
      case (failed q d)
      then show ?thesis using data_failed[OF r(1,2) failed(1,2)] a(3) r(3) raised(2) by simp
    next
      case (succeeded q d)
      then show ?thesis by simp
    qed
  next
    case b: (returned d1 w2 t3 t4)
  from b(1) obtain q2 where d: "quiet q2" "ok d1" "t3 = q2 @ [Invoke StepData d1]"
  proof (cases rule: data_phase_cases)
    case cancelled
    then show ?thesis by simp
  next
    case (failed q r)
    then show ?thesis by simp
  next
    case (succeeded q r)
    then show ?thesis using that[of q] by simp
  qed
    from b(2) show ?thesis
    proof (cases rule: bindM_cases)
      case (raised e)
      from raised(1) show ?thesis
      proof (cases rule: writer_phase_cases)
        case cancelled
        then show ?thesis using writer_cancelled[OF r(1,2) d(1,2)] a(3) b(3) r(3) d(3) raised(2) by simp
      next
        case (failed q wr)
        then show ?thesis using writer_failed[OF r(1,2) d(1,2) failed(1,2)] a(3) b(3) r(3) d(3) raised(2) by simp
      next
        case (succeeded q wr)
        then show ?thesis by simp
      qed
    next
      case c: (returned wr w3 t5 t6)
  from c(1) obtain q3 where w: "quiet q3" "ok wr" "t5 = q3 @ [Invoke StepWrite wr]"
  proof (cases rule: writer_phase_cases)
    case cancelled
    then show ?thesis by simp
  next
    case (failed q r)
    then show ?thesis by simp
  next
    case (succeeded q r)
    then show ?thesis using that[of q] by simp
  qed
      have "tr = q1 @ Invoke StepResearch r1 # q2 @ Invoke StepData d1 # q3 @ Invoke StepWrite wr # t6"
        using a(3) b(3) c(3) r(3) d(3) w(3) by simp
      then show ?thesis using written[OF r(1,2) d(1,2) w(1,2) c(2)] by simp
    qed
  qed
qed

lemma invoked_simps:
  "invoked [] = []"
  "invoked (a @ b) = invoked a @ invoked b"
  "invoked (Invoke s r # t) = (s, r) # invoked t"
  "invoked (CancelCheck c # t) = invoked t"
  "invoked (Progress n p # t) = invoked t"
  by (simp_all add: invoked_def)

lemma invoked_quiet: "quiet q \<Longrightarrow> invoked q = []"
proof (induction q)
  case Nil then show ?case by (simp add: invoked_def)
next
  case (Cons e q)
  then show ?case by (cases e) (simp_all add: invoked_def quiet_def)
qed

lemma Invoke_in_set: "Invoke s r \<in> set tr \<longleftrightarrow> (s, r) \<in> set (invoked tr)"
proof (induction tr)
  case Nil then show ?case by (simp add: invoked_def)
next
  case (Cons e tr)
  then show ?case by (cases e) (auto simp: invoked_simps)
qed

lemma aborted_simps:
  "\<not> aborted []"
  "aborted (a @ [e]) = fatal e"
  "aborted [e] = fatal e"
  "b \<noteq> [] \<Longrightarrow> aborted (a @ b) = aborted b"
  "aborted (e # f # t) = aborted (f # t)"
  by (simp_all add: aborted_def)

lemma quiet_not_aborted: "quiet q \<Longrightarrow> \<not> aborted q"
proof (cases q rule: rev_cases)
  case Nil then show ?thesis by (simp add: aborted_def)
next
  case (snoc xs e)
  assume "quiet q"
  then show ?thesis using snoc by (cases e) (simp_all add: aborted_def quiet_def fatal_def)
qed

lemma repair_phase_steps:
  assumes "repair_phase env args c2 m cur w = (res, w', t)"
  shows "fst ` set (invoked t) \<subseteq> {StepWriteRepair}"
  using assms by (cases rule: repair_phase_cases) (simp_all add: invoked_simps invoked_quiet)

lemma review_phase_steps:
  assumes "review_phase env args txt w = (res, w', t)"
  shows "fst ` set (invoked t) \<subseteq> {StepReview}"
  using assms by (cases rule: review_phase_cases) (simp_all add: invoked_simps invoked_quiet)

lemma diagram_phase_steps:
  assumes "diagram_phase env args th ds w = (res, w', t)"
  shows "fst ` set (invoked t) \<subseteq> {StepDiagram}"
  using assms by (cases rule: diagram_phase_cases) (simp_all add: invoked_simps invoked_quiet)

lemma quality_phase_steps:
  assumes "quality_phase env args c2 m cur w = (res, w', t)"
  shows "fst ` set (invoked t) \<subseteq> {StepQualityFix}"
  using assms by (cases rule: quality_phase_cases) (simp_all add: invoked_simps invoked_quiet)

lemma after_writer_steps:
  assumes "after_writer env args r1 d1 w1 c2 m w = (res, w', t)"
  shows "fst ` set (invoked t) \<subseteq> {StepWriteRepair, StepReview, StepDiagram, StepQualityFix}"
  using assms
proof (cases rule: after_writer_cases)
  case (at_repair e)
  then show ?thesis using repair_phase_steps by fastforce
next
  case (at_review cur w4 t4 e t5)
  then show ?thesis
    using repair_phase_steps[OF at_review(1)] review_phase_steps[OF at_review(2)]
    by (auto simp: invoked_simps)
next
  case (at_diagram cur w4 t4 rv w5 t5 e t6)
  then show ?thesis
    using repair_phase_steps[OF at_diagram(1)] review_phase_steps[OF at_diagram(2)]
      diagram_phase_steps[OF at_diagram(3)]
    by (auto simp: invoked_simps)
next
  case (at_quality cur w4 t4 rv w5 t5 dg w6 t6 e t7)
  then show ?thesis
    using repair_phase_steps[OF at_quality(1)] review_phase_steps[OF at_quality(2)]
      diagram_phase_steps[OF at_quality(3)] quality_phase_steps[OF at_quality(4)]
    by (auto simp: invoked_simps)
next
  case (finished cur w4 t4 rv w5 t5 dg w6 t6 cur' q t7)
  then show ?thesis
    using repair_phase_steps[OF finished(1)] review_phase_steps[OF finished(2)]
      diagram_phase_steps[OF finished(3)] quality_phase_steps[OF finished(4)]
    by (auto simp: invoked_simps)
qed

lemma writing_steps_simps:
  "writing_steps [] = []"
  "writing_steps (a @ b) = writing_steps a @ writing_steps b"
  "writing_steps (Invoke s r # t) =
     (if s = StepWrite \<or> s = StepWriteRepair \<or> s = StepQualityFix then s # writing_steps t
      else writing_steps t)"
  by (simp_all add: writing_steps_def invoked_simps)

lemma writing_steps_quiet: "quiet q \<Longrightarrow> writing_steps q = []"
  by (simp add: writing_steps_def invoked_quiet)

lemma writing_steps_none:
  "fst ` set (invoked t) \<subseteq> S \<Longrightarrow> StepWrite \<notin> S \<Longrightarrow> StepWriteRepair \<notin> S \<Longrightarrow>
   StepQualityFix \<notin> S \<Longrightarrow> writing_steps t = []"
  unfolding writing_steps_def by (auto simp: filter_empty_conv)

lemma review_phase_writing:
  "review_phase env args txt w = (res, w', t) \<Longrightarrow> writing_steps t = []"
  by (rule writing_steps_none[OF review_phase_steps]) auto

lemma diagram_phase_writing:
  "diagram_phase env args th ds w = (res, w', t) \<Longrightarrow> writing_steps t = []"
  by (rule writing_steps_none[OF diagram_phase_steps]) auto

lemma first_write_unique:
  assumes "after_writer env args r1 d1 w1 c2 m w = (res, w', t4)"
    and "tr = q1 @ Invoke StepResearch r1 # q2 @ Invoke StepData d1 # q3 @ Invoke StepWrite w1 # t4"
    and "quiet q1" "quiet q2" "quiet q3"
  shows "Invoke StepWrite x \<in> set tr \<longleftrightarrow> x = w1"
    and "Invoke StepData y \<in> set tr \<longleftrightarrow> y = d1"
proof -
  have i: "invoked tr = (StepResearch, r1) # (StepData, d1) # (StepWrite, w1) # invoked t4"
    using assms(2-5) by (simp add: invoked_simps invoked_quiet)
  have s: "fst ` set (invoked t4) \<subseteq> {StepWriteRepair, StepReview, StepDiagram, StepQualityFix}"
    using assms(1) by (rule after_writer_steps)
  show "Invoke StepWrite x \<in> set tr \<longleftrightarrow> x = w1"
    unfolding Invoke_in_set i using s by force
  show "Invoke StepData y \<in> set tr \<longleftrightarrow> y = d1"
    unfolding Invoke_in_set i using s by force
qed

lemma repair_phase_skip:
  assumes "repair_phase env args c2 m cur w = (res, w', t)"
    and "missing_sections (writer_format (a_template_cfg args)) (snd cur) = []"
  shows "res = Inr cur \<and> t = []"
  using assms by (cases rule: repair_phase_cases) simp_all

lemma quality_phase_pass:
  assumes "quality_phase env args c2 m cur w = (res, w', t)"
    and "evaluate_report_quality (fst cur) (a_template_cfg args) = Inr q" "q_ok q"
  shows "t = []"
  using assms by (cases rule: quality_phase_cases) simp_all

lemma after_writer_single_write:
  assumes aw: "after_writer env args r1 d1 w1 c2 m w = (res, w', t)"
    and gate: "evaluate_report_quality (get_or [] (p_report_text (payload w1))) (a_template_cfg args) = Inr q"
      "q_ok q"
    and nomiss: "missing_sections (writer_format (a_template_cfg args))
                   (get_or [] (p_sections (payload w1))) = []"
  shows "writing_steps t = []"
  using aw
proof (cases rule: after_writer_cases)
  case (at_repair e)
  then show ?thesis using repair_phase_skip[OF at_repair(1)] nomiss by simp
next
  case (at_review cur w4 t4 e t5)
  then show ?thesis
    using repair_phase_skip[OF at_review(1)] nomiss review_phase_writing[OF at_review(2)]
    by (simp add: writing_steps_simps)
next
  case (at_diagram cur w4 t4 rv w5 t5 e t6)
  then show ?thesis
    using repair_phase_skip[OF at_diagram(1)] nomiss review_phase_writing[OF at_diagram(2)]
      diagram_phase_writing[OF at_diagram(3)]
    by (simp add: writing_steps_simps)
next
  case (at_quality cur w4 t4 rv w5 t5 dg w6 t6 e t7)
  have c: "cur = (get_or [] (p_report_text (payload w1)), get_or [] (p_sections (payload w1)))"
    "t4 = []"
    using repair_phase_skip[OF at_quality(1)] nomiss by simp_all
  have "t7 = []" using quality_phase_pass[OF at_quality(4)] gate c by simp
  then show ?thesis
    using at_quality(6) c review_phase_writing[OF at_quality(2)]
      diagram_phase_writing[OF at_quality(3)]
    by (simp add: writing_steps_simps)
next
  case (finished cur w4 t4 rv w5 t5 dg w6 t6 cur' q' t7)
  have c: "cur = (get_or [] (p_report_text (payload w1)), get_or [] (p_sections (payload w1)))"
    "t4 = []"
    using repair_phase_skip[OF finished(1)] nomiss by simp_all
  have "t7 = []" using quality_phase_pass[OF finished(4)] gate c by simp
  then show ?thesis
    using finished(6) c review_phase_writing[OF finished(2)]
      diagram_phase_writing[OF finished(3)]
    by (simp add: writing_steps_simps)
qed


lemma split_loop_raises:
  "split_loop headers cur out lines = Inl e \<Longrightarrow> \<exists>k. e = KeyError k"
proof (induction lines arbitrary: cur out)
  case Nil then show ?case by simp
next
  case (Cons line rest)
  then show ?case
    by (auto split: option.splits)
qed

lemma split_by_headers_raises:
  "split_by_headers t hs = Inl e \<Longrightarrow> \<exists>k. e = KeyError k"
  unfolding split_by_headers_def Let_def
  by (auto split: sum.splits dest: split_loop_raises)

lemma evaluate_report_quality_raises:
  "evaluate_report_quality t cfg = Inl e \<Longrightarrow> \<exists>k. e = KeyError k"
  unfolding evaluate_report_quality_def Let_def
  by (auto split: sum.splits if_splits dest: split_by_headers_raises)

lemma not_aborted_append: "\<not> aborted a \<Longrightarrow> \<not> aborted b \<Longrightarrow> \<not> aborted (a @ b)"
  by (cases "b = []") (auto simp: aborted_def)

lemma not_aborted_call:
  "quiet q \<Longrightarrow> s \<noteq> StepResearch \<Longrightarrow> s \<noteq> StepData \<Longrightarrow> s \<noteq> StepWrite \<Longrightarrow>
     \<not> aborted (q @ [Invoke s r])"
  by (simp add: aborted_def fatal_def)

lemma repair_phase_outcome:
  assumes "repair_phase env args c2 m cur w = (res, w', t)"
  shows "(res = Inl (CancelledError ''Job canceled by user.'') \<and> t = [CancelCheck True])
       \<or> ((\<exists>x. res = Inr x) \<and> \<not> aborted t)"
  using assms
  by (cases rule: repair_phase_cases) (simp_all add: not_aborted_call aborted_def fatal_def)

lemma review_phase_outcome:
  assumes "review_phase env args txt w = (res, w', t)"
  shows "(res = Inl (CancelledError ''Job canceled by user.'') \<and> t = [CancelCheck True])
       \<or> ((\<exists>x. res = Inr x) \<and> \<not> aborted t)"
  using assms
  by (cases rule: review_phase_cases) (simp_all add: not_aborted_call aborted_def fatal_def)

lemma diagram_phase_outcome:
  assumes "diagram_phase env args th ds w = (res, w', t)"
  shows "(res = Inl (CancelledError ''Job canceled by user.'') \<and> t = [CancelCheck True])
       \<or> ((\<exists>x. res = Inr x) \<and> \<not> aborted t)"
  using assms
  by (cases rule: diagram_phase_cases) (simp_all add: not_aborted_call aborted_def fatal_def)

lemma quality_phase_outcome:
  assumes "quality_phase env args c2 m cur w = (res, w', t)"
  shows "((\<exists>x. res = Inr x) \<or> (\<exists>k. res = Inl (KeyError k))) \<and> \<not> aborted t"
  using assms
proof (cases rule: quality_phase_cases)
  case (raised e)
  then show ?thesis using evaluate_report_quality_raises by (fastforce simp: aborted_def)
next
  case (passed q)
  then show ?thesis by (simp add: aborted_def)
next
  case (fixed q qz wq)
  show ?thesis
  proof (cases "evaluate_report_quality (fst (accept_rewrite wq cur)) (a_template_cfg args)")
    case (Inl e)
    then show ?thesis using fixed evaluate_report_quality_raises[OF Inl]
      by (auto simp: not_aborted_call)
  next
    case (Inr q')
    then show ?thesis using fixed by (simp add: not_aborted_call)
  qed
qed

lemma after_writer_outcome:
  assumes "after_writer env args r1 d1 w1 c2 m w = (res, w', t)"
  shows "(res = Inl (CancelledError ''Job canceled by user.'') \<and> (\<exists>pre. t = pre @ [CancelCheck True]))
       \<or> (((\<exists>out. res = Inr out) \<or> (\<exists>k. res = Inl (KeyError k))) \<and> \<not> aborted t)"
  using assms
proof (cases rule: after_writer_cases)
  case (at_repair e)
  then show ?thesis using repair_phase_outcome[OF at_repair(1)] by auto
next
  case (at_review cur w4 t4 e t5)
  then show ?thesis using review_phase_outcome[OF at_review(2)] by auto
next
  case (at_diagram cur w4 t4 rv w5 t5 e t6)
  have "res = Inl (CancelledError ''Job canceled by user.'') \<and> t6 = [CancelCheck True]"
    using diagram_phase_outcome[OF at_diagram(3)] at_diagram(4) by auto
  then show ?thesis using at_diagram(5) by (auto intro: exI[of _ "t4 @ t5"])
next
  case (at_quality cur w4 t4 rv w5 t5 dg w6 t6 e t7)
  have "\<not> aborted t4" "\<not> aborted t5" "\<not> aborted t6" "\<not> aborted t7"
    using repair_phase_outcome[OF at_quality(1)] review_phase_outcome[OF at_quality(2)]
      diagram_phase_outcome[OF at_quality(3)] quality_phase_outcome[OF at_quality(4)]
    by simp_all
  then have "\<not> aborted t" using at_quality(6) by (simp add: not_aborted_append)
  then show ?thesis using quality_phase_outcome[OF at_quality(4)] at_quality(5) by simp
next
  case (finished cur w4 t4 rv w5 t5 dg w6 t6 cur' q t7)
  have "\<not> aborted t4" "\<not> aborted t5" "\<not> aborted t6" "\<not> aborted t7"
    using repair_phase_outcome[OF finished(1)] review_phase_outcome[OF finished(2)]
      diagram_phase_outcome[OF finished(3)] quality_phase_outcome[OF finished(4)]
    by simp_all
  then have "\<not> aborted t" using finished(6) by (simp add: not_aborted_append)
  then show ?thesis using finished(5) by simp
qed

lemma run_pipeline_outcome:
  assumes "run_pipeline env args w0 = (res, w', tr)"
  shows "(res = Inl (CancelledError ''Job canceled by user.'') \<and> (\<exists>pre. tr = pre @ [CancelCheck True]))
       \<or> (\<exists>pre s r. tr = pre @ [Invoke s r] \<and> (s = StepResearch \<or> s = StepData \<or> s = StepWrite)
             \<and> \<not> ok r \<and> res = Inl (step_error (step_name s) r))
       \<or> (((\<exists>out. res = Inr out) \<or> (\<exists>k. res = Inl (KeyError k))) \<and> \<not> aborted tr)"
  using assms
proof (cases rule: run_pipeline_cases)
  case research_cancelled
  then show ?thesis by simp
next
  case (research_failed q1 r1)
  then show ?thesis by (intro disjI2 disjI1 exI[of _ q1] exI[of _ StepResearch] exI[of _ r1])
      (simp add: step_name_def)
next
  case (data_cancelled q1 r1)
  then show ?thesis by (intro disjI1 conjI exI[of _ "q1 @ [Invoke StepResearch r1]"]) simp_all
next
  case (data_failed q1 r1 q2 d1)
  then show ?thesis
    by (intro disjI2 disjI1 exI[of _ "q1 @ Invoke StepResearch r1 # q2"] exI[of _ StepData]
        exI[of _ d1]) (simp add: step_name_def)
next
  case (writer_cancelled q1 r1 q2 d1)
  then show ?thesis
    by (intro disjI1 conjI exI[of _ "q1 @ Invoke StepResearch r1 # q2 @ [Invoke StepData d1]"])
      simp_all
next
  case (writer_failed q1 r1 q2 d1 q3 w1)
  then show ?thesis
    by (intro disjI2 disjI1 exI[of _ "q1 @ Invoke StepResearch r1 # q2 @ Invoke StepData d1 # q3"]
        exI[of _ StepWrite] exI[of _ w1]) (simp add: step_name_def)
next
  case (written q1 r1 q2 d1 q3 w1 c2 m w3 t4)
  let ?pre = "q1 @ Invoke StepResearch r1 # q2 @ Invoke StepData d1 # q3 @ [Invoke StepWrite w1]"
  have tr: "tr = ?pre @ t4" using written(8) by simp
  have pre: "\<not> aborted ?pre" using written(6) by (simp add: aborted_def fatal_def)
  from after_writer_outcome[OF written(7)] show ?thesis
  proof
    assume a: "res = Inl (CancelledError ''Job canceled by user.'') \<and> (\<exists>pre. t4 = pre @ [CancelCheck True])"
    then obtain p where "t4 = p @ [CancelCheck True]" by blast
    then have "tr = (?pre @ p) @ [CancelCheck True]" using tr by simp
    then show ?thesis using a by blast
  next
    assume a: "((\<exists>out. res = Inr out) \<or> (\<exists>k. res = Inl (KeyError k))) \<and> \<not> aborted t4"
    then have "\<not> aborted t4" by simp
    with pre have "\<not> aborted tr" unfolding tr by (rule not_aborted_append)
    then show ?thesis using a by blast
  qed
qed

lemma after_writer_degrades:
  assumes "after_writer env args r1 d1 w1 c2 m w = (Inr out, w', t)"
  shows "(\<forall>r. (StepReview, r) \<in> set (invoked t) \<and> \<not> ok r \<longrightarrow> out_review out = [])
       \<and> (\<forall>r. (StepDiagram, r) \<in> set (invoked t) \<and> \<not> ok r \<longrightarrow> out_figures out = [])"
  using assms
proof (cases rule: after_writer_cases)
  case (finished cur w4 t4 rv w5 t5 dg w6 t6 cur' q t7)
  note st = repair_phase_steps[OF finished(1)] review_phase_steps[OF finished(2)]
    diagram_phase_steps[OF finished(3)] quality_phase_steps[OF finished(4)]
  have inv: "invoked t = invoked t4 @ invoked t5 @ invoked t6 @ invoked t7"
    using finished(6) by (simp add: invoked_simps)
  have rev: "out_review out = []" if "(StepReview, r) \<in> set (invoked t)" "\<not> ok r" for r
  proof -
    have in5: "(StepReview, r) \<in> set (invoked t5)" using that(1) st unfolding inv by force
    from finished(2) show ?thesis
    proof (cases rule: review_phase_cases)
      case skipped
      then show ?thesis using in5 by (simp add: invoked_simps)
    next
      case cancelled
      then show ?thesis by simp
    next
      case (reviewed q rv')
      then have "r = rv'" using in5 by (simp add: invoked_simps invoked_quiet)
      then show ?thesis using reviewed that(2) finished(5) by auto
    qed
  qed
  have fig: "out_figures out = []" if "(StepDiagram, r) \<in> set (invoked t)" "\<not> ok r" for r
  proof -
    have in6: "(StepDiagram, r) \<in> set (invoked t6)" using that(1) st unfolding inv by force
    from finished(3) show ?thesis
    proof (cases rule: diagram_phase_cases)
      case skipped
      then show ?thesis using in6 by (simp add: invoked_simps)
    next
      case cancelled
      then show ?thesis by simp
    next
      case (drawn q dg')
      then have "r = dg'" using in6 by (simp add: invoked_simps invoked_quiet)
      then show ?thesis using drawn that(2) finished(5) by auto
    qed
  qed
  show ?thesis using rev fig by blast
qed simp_all

lemma run_pipeline_degrades:
  assumes run: "run_pipeline env args w0 = (res, w', tr)"
    and inv: "Invoke StepReview r \<in> set tr \<or> Invoke StepDiagram r \<in> set tr"
  shows "(\<forall>m. res \<noteq> Inl (RuntimeError m))
       \<and> (\<forall>out. res = Inr out \<and> Invoke StepReview r \<in> set tr \<and> \<not> ok r \<longrightarrow> out_review out = [])
       \<and> (\<forall>out. res = Inr out \<and> Invoke StepDiagram r \<in> set tr \<and> \<not> ok r \<longrightarrow> out_figures out = [])"
  using run
proof (cases rule: run_pipeline_cases)
  case research_cancelled
  then show ?thesis by simp
next
  case (research_failed q1 r1)
  then show ?thesis using inv by (simp add: Invoke_in_set invoked_simps invoked_quiet)
next
  case (data_cancelled q1 r1)
  then show ?thesis by simp
next
  case (data_failed q1 r1 q2 d1)
  then show ?thesis using inv by (simp add: Invoke_in_set invoked_simps invoked_quiet)
next
  case (writer_cancelled q1 r1 q2 d1)
  then show ?thesis by simp
next
  case (writer_failed q1 r1 q2 d1 q3 w1)
  then show ?thesis using inv by (simp add: Invoke_in_set invoked_simps invoked_quiet)
next
  case (written q1 r1 q2 d1 q3 w1 c2 m w3 t4)
  have i: "invoked tr = (StepResearch, r1) # (StepData, d1) # (StepWrite, w1) # invoked t4"
    using written by (simp add: invoked_simps invoked_quiet)
  have a: "\<forall>m. res \<noteq> Inl (RuntimeError m)"
    using after_writer_outcome[OF written(7)] by auto
  have "out_review out = []" if "res = Inr out" "Invoke StepReview r \<in> set tr" "\<not> ok r" for out
    using after_writer_degrades[of env args r1 d1 w1 c2 m w3 out w' t4] written(7) that
    by (auto simp: Invoke_in_set i)
  moreover have "out_figures out = []"
    if "res = Inr out" "Invoke StepDiagram r \<in> set tr" "\<not> ok r" for out
    using after_writer_degrades[of env args r1 d1 w1 c2 m w3 out w' t4] written(7) that
    by (auto simp: Invoke_in_set i)
  ultimately show ?thesis using a by blast
qed

lemma run_pipeline_errors:
  assumes run: "run_pipeline env args w0 = (res, w', tr)"
    and wf: "\<forall>s r. Invoke s r \<in> set tr \<longrightarrow> \<not> ok r \<longrightarrow> error r \<noteq> None"
  shows "((\<exists>m. res = Inl (RuntimeError m)) \<longleftrightarrow>
            (\<exists>pre s r. tr = pre @ [Invoke s r]
               \<and> (s = StepResearch \<or> s = StepData \<or> s = StepWrite) \<and> \<not> ok r))
       \<and> (\<forall>pre s r e. tr = pre @ [Invoke s r]
               \<and> (s = StepResearch \<or> s = StepData \<or> s = StepWrite) \<and> \<not> ok r \<and> error r = Some e
             \<longrightarrow> res = Inl (RuntimeError (''['' @ step_name s @ ''] '' @ message e @ '': ''
                                @ str_opt (err_detail e))))
       \<and> ((\<exists>m. res = Inl (CancelledError m)) \<longleftrightarrow> (\<exists>pre. tr = pre @ [CancelCheck True]))
       \<and> (\<forall>r. Invoke StepReview r \<in> set tr \<or> Invoke StepDiagram r \<in> set tr
             \<longrightarrow> (\<forall>m. res \<noteq> Inl (RuntimeError m)))
       \<and> (\<forall>out r. res = Inr out \<and> Invoke StepReview r \<in> set tr \<and> \<not> ok r \<longrightarrow> out_review out = [])
       \<and> (\<forall>out r. res = Inr out \<and> Invoke StepDiagram r \<in> set tr \<and> \<not> ok r \<longrightarrow> out_figures out = [])"
proof -
  note oc = run_pipeline_outcome[OF run]
  have err: "step_error n r = RuntimeError (''['' @ n @ ''] '' @ message e @ '': '' @ str_opt (err_detail e))"
    if "error r = Some e" for n r e
    using that by (simp add: step_error_def)
  have wf': "\<exists>e. error r = Some e" if "tr = pre @ [Invoke s r]" "\<not> ok r" for pre s r
    using wf that by auto
  have fail_end: "res = Inl (step_error (step_name s) r)"
    if "tr = pre @ [Invoke s r]" "s = StepResearch \<or> s = StepData \<or> s = StepWrite" "\<not> ok r"
    for pre s r
  proof -
    have ab: "aborted tr" using that by (auto simp: aborted_def fatal_def)
    from oc show ?thesis
    proof (elim disjE)
      assume "res = Inl (CancelledError ''Job canceled by user.'') \<and> (\<exists>pre. tr = pre @ [CancelCheck True])"
      then show ?thesis using that(1) by auto
    next
      assume "\<exists>pre s r. tr = pre @ [Invoke s r] \<and> (s = StepResearch \<or> s = StepData \<or> s = StepWrite)
             \<and> \<not> ok r \<and> res = Inl (step_error (step_name s) r)"
      then show ?thesis using that(1) by auto
    next
      assume "((\<exists>out. res = Inr out) \<or> (\<exists>k. res = Inl (KeyError k))) \<and> \<not> aborted tr"
      then show ?thesis using ab by simp
    qed
  qed
  have c1: "(\<exists>m. res = Inl (RuntimeError m)) \<longleftrightarrow>
            (\<exists>pre s r. tr = pre @ [Invoke s r]
               \<and> (s = StepResearch \<or> s = StepData \<or> s = StepWrite) \<and> \<not> ok r)"
  proof
    assume "\<exists>m. res = Inl (RuntimeError m)"
    then show "\<exists>pre s r. tr = pre @ [Invoke s r]
               \<and> (s = StepResearch \<or> s = StepData \<or> s = StepWrite) \<and> \<not> ok r"
      using oc by auto
  next
    assume "\<exists>pre s r. tr = pre @ [Invoke s r]
               \<and> (s = StepResearch \<or> s = StepData \<or> s = StepWrite) \<and> \<not> ok r"
    then obtain pre s r where a: "tr = pre @ [Invoke s r]"
      "s = StepResearch \<or> s = StepData \<or> s = StepWrite" "\<not> ok r" by blast
    obtain e where "error r = Some e" using wf'[OF a(1,3)] by blast
    then show "\<exists>m. res = Inl (RuntimeError m)" using fail_end[OF a] err by auto
  qed
  have c2: "\<forall>pre s r e. tr = pre @ [Invoke s r]
               \<and> (s = StepResearch \<or> s = StepData \<or> s = StepWrite) \<and> \<not> ok r \<and> error r = Some e
             \<longrightarrow> res = Inl (RuntimeError (''['' @ step_name s @ ''] '' @ message e @ '': ''
                                @ str_opt (err_detail e)))"
    using fail_end err by auto
  have c3: "(\<exists>m. res = Inl (CancelledError m)) \<longleftrightarrow> (\<exists>pre. tr = pre @ [CancelCheck True])"
  proof
    assume a: "\<exists>m. res = Inl (CancelledError m)"
    from oc show "\<exists>pre. tr = pre @ [CancelCheck True]"
    proof (elim disjE)
      assume "\<exists>pre s r. tr = pre @ [Invoke s r] \<and> (s = StepResearch \<or> s = StepData \<or> s = StepWrite)
             \<and> \<not> ok r \<and> res = Inl (step_error (step_name s) r)"
      then obtain pre s r where b: "tr = pre @ [Invoke s r]" "\<not> ok r"
        "res = Inl (step_error (step_name s) r)" by blast
      obtain e where "error r = Some e" using wf'[OF b(1,2)] by blast
      then show ?thesis using a b(3) err by auto
    qed (use a in auto)
  next
    assume "\<exists>pre. tr = pre @ [CancelCheck True]"
    then obtain pre where p: "tr = pre @ [CancelCheck True]" by blast
    then have ab: "aborted tr" by (simp add: aborted_def fatal_def)
    from oc show "\<exists>m. res = Inl (CancelledError m)"
      using p ab by auto
  qed
  have c456: "(\<forall>r. Invoke StepReview r \<in> set tr \<or> Invoke StepDiagram r \<in> set tr
             \<longrightarrow> (\<forall>m. res \<noteq> Inl (RuntimeError m)))
       \<and> (\<forall>out r. res = Inr out \<and> Invoke StepReview r \<in> set tr \<and> \<not> ok r \<longrightarrow> out_review out = [])
       \<and> (\<forall>out r. res = Inr out \<and> Invoke StepDiagram r \<in> set tr \<and> \<not> ok r \<longrightarrow> out_figures out = [])"
    using run_pipeline_degrades[OF run] by blast
  show ?thesis using c1 c2 c3 c456 by blast
qed

lemma quiet_no_cancel: "quiet q \<Longrightarrow> CancelCheck True \<notin> set q"
  by (auto simp: quiet_def list_all_iff)

lemma repair_phase_no_cancel:
  assumes "repair_phase env args c2 m cur w = (Inr x, w', t)"
  shows "CancelCheck True \<notin> set t"
  using assms by (cases rule: repair_phase_cases) (simp_all add: quiet_no_cancel)

lemma review_phase_no_cancel:
  assumes "review_phase env args txt w = (Inr x, w', t)"
  shows "CancelCheck True \<notin> set t"
  using assms by (cases rule: review_phase_cases) (simp_all add: quiet_no_cancel)

lemma diagram_phase_no_cancel:
  assumes "diagram_phase env args th ds w = (Inr x, w', t)"
  shows "CancelCheck True \<notin> set t"
  using assms by (cases rule: diagram_phase_cases) (simp_all add: quiet_no_cancel)

lemma quality_phase_no_cancel:
  assumes "quality_phase env args c2 m cur w = (res, w', t)"
  shows "CancelCheck True \<notin> set t"
  using assms by (cases rule: quality_phase_cases) (simp_all add: quiet_no_cancel)

lemma after_writer_no_cancel:
  assumes "after_writer env args r1 d1 w1 c2 m w = (res, w', t)"
    and "\<forall>msg. res \<noteq> Inl (CancelledError msg)"
  shows "CancelCheck True \<notin> set t"
  using assms(1)
proof (cases rule: after_writer_cases)
  case (at_repair e)
  then show ?thesis using repair_phase_outcome[OF at_repair(1)] assms(2) by auto
next
  case (at_review cur w4 t4 e t5)
  then show ?thesis using review_phase_outcome[OF at_review(2)] assms(2) by auto
next
  case (at_diagram cur w4 t4 rv w5 t5 e t6)
  then show ?thesis using diagram_phase_outcome[OF at_diagram(3)] assms(2) by auto
next
  case (at_quality cur w4 t4 rv w5 t5 dg w6 t6 e t7)
  then show ?thesis
    using repair_phase_no_cancel[OF at_quality(1)] review_phase_no_cancel[OF at_quality(2)]
      diagram_phase_no_cancel[OF at_quality(3)] quality_phase_no_cancel[OF at_quality(4)]
    by simp
next
  case (finished cur w4 t4 rv w5 t5 dg w6 t6 cur' q t7)
  then show ?thesis
    using repair_phase_no_cancel[OF finished(1)] review_phase_no_cancel[OF finished(2)]
      diagram_phase_no_cancel[OF finished(3)] quality_phase_no_cancel[OF finished(4)]
    by simp
qed

lemma cancelled_iff_asked:
  assumes "run_pipeline env args w0 = (res, w', tr)"
  shows "CancelCheck True \<in> set tr \<longleftrightarrow> res = Inl (CancelledError ''Job canceled by user.'')"
  using assms
proof (cases rule: run_pipeline_cases)
  case research_cancelled
  then show ?thesis by simp
next
  case (research_failed q1 r1)
  then show ?thesis by (auto simp: quiet_no_cancel step_error_def split: option.splits)
next
  case (data_cancelled q1 r1)
  then show ?thesis by simp
next
  case (data_failed q1 r1 q2 d1)
  then show ?thesis by (auto simp: quiet_no_cancel step_error_def split: option.splits)
next
  case (writer_cancelled q1 r1 q2 d1)
  then show ?thesis by simp
next
  case (writer_failed q1 r1 q2 d1 q3 w1)
  then show ?thesis by (auto simp: quiet_no_cancel step_error_def split: option.splits)
next
  case (written q1 r1 q2 d1 q3 w1 c2 m w3 t4)
  have pre: "CancelCheck True \<in> set tr \<longleftrightarrow> CancelCheck True \<in> set t4"
    using written(1,3,5,8) by (auto simp: quiet_no_cancel)
  show ?thesis
  proof (cases "res = Inl (CancelledError ''Job canceled by user.'')")
    case True
    then show ?thesis using after_writer_outcome[OF written(7)] pre by auto
  next
    case False
    then have "\<forall>msg. res \<noteq> Inl (CancelledError msg)"
      using after_writer_outcome[OF written(7)] by auto
    then show ?thesis using after_writer_no_cancel[OF written(7)] pre False by simp
  qed
qed

lemma failure_is_last:
  assumes "run_pipeline env args w0 = (res, w', tr)"
    and "Invoke s r \<in> set tr" "s = StepResearch \<or> s = StepData \<or> s = StepWrite" "\<not> ok r"
  shows "\<exists>pre. tr = pre @ [Invoke s r]"
  using assms(1)
proof (cases rule: run_pipeline_cases)
  case research_cancelled
  then show ?thesis using assms(2) by simp
next
  case (research_failed q1 r1)
  then show ?thesis using assms(2-4) by (auto simp: Invoke_in_set invoked_simps invoked_quiet)
next
  case (data_cancelled q1 r1)
  then show ?thesis using assms(2-4) by (auto simp: Invoke_in_set invoked_simps invoked_quiet)
next
  case (data_failed q1 r1 q2 d1)
  have "(s, r) = (StepData, d1)"
    using data_failed assms(2-4) by (auto simp: Invoke_in_set invoked_simps invoked_quiet)
  then show ?thesis using data_failed(6)
    by (intro exI[of _ "q1 @ Invoke StepResearch r1 # q2"]) simp
next
  case (writer_cancelled q1 r1 q2 d1)
  then show ?thesis using assms(2-4) by (auto simp: Invoke_in_set invoked_simps invoked_quiet)
next
  case (writer_failed q1 r1 q2 d1 q3 w1)
  have "(s, r) = (StepWrite, w1)"
    using writer_failed assms(2-4) by (auto simp: Invoke_in_set invoked_simps invoked_quiet)
  then show ?thesis using writer_failed(8)
    by (intro exI[of _ "q1 @ Invoke StepResearch r1 # q2 @ Invoke StepData d1 # q3"]) simp
next
  case (written q1 r1 q2 d1 q3 w1 c2 m w3 t4)
  have i: "invoked tr = (StepResearch, r1) # (StepData, d1) # (StepWrite, w1) # invoked t4"
    using written by (simp add: invoked_simps invoked_quiet)
  have "fst ` set (invoked t4) \<subseteq> {StepWriteRepair, StepReview, StepDiagram, StepQualityFix}"
    using written(7) by (rule after_writer_steps)
  then have "(s, r) \<notin> set (invoked t4)" using assms(3) by force
  then show ?thesis using assms(2-4) written(2,4,6) by (auto simp: Invoke_in_set i)
qed

text \<open>
  What can end a run after the first write: the cancellation, or the quality gate when it
  raises, which it does not for headers without whitespace at their ends.
\<close>

lemma split_by_headers_returns:
  assumes "\<forall>h\<in>set headers. strip h = h"
  shows "\<exists>s. split_by_headers report_text headers = Inr s"
proof -
  let ?out = "map (\<lambda>h. (h, [])) (first_occurrences headers)"
  have "split_loop headers None ?out (splitlines report_text) =
      Inr (map (\<lambda>(k, v). (k, v @ section_lines headers k (None = Some k) (splitlines report_text))) ?out)"
  proof (rule split_loop_sections)
    show "\<forall>h\<in>set headers. strip h = h" by (rule assms)
    show "distinct (map fst ?out)" by (simp add: comp_def first_occurrences_def)
    show "fst ` set ?out = set headers" by (force simp: first_occurrences_def image_iff)
    show "case None of None \<Rightarrow> True | Some c \<Rightarrow> c \<in> set headers" by simp
  qed
  then show ?thesis
    by (simp add: split_by_headers_def init_out_lines_general comp_def)
qed

lemma evaluate_report_quality_returns:
  assumes "\<forall>h\<in>set (writer_format cfg). strip h = h"
  shows "\<exists>q. evaluate_report_quality t cfg = Inr q"
proof -
  obtain s where "split_by_headers t (writer_format cfg) = Inr s"
    using split_by_headers_returns[OF assms] by blast
  then show ?thesis unfolding evaluate_report_quality_def Let_def by simp
qed

lemma quality_phase_raises:
  assumes "quality_phase env args c2 m cur w = (Inl e, w', t)"
  shows "\<exists>rep. evaluate_report_quality rep (a_template_cfg args) = Inl e"
  using assms
proof (cases rule: quality_phase_cases)
  case (raised e')
  then show ?thesis by auto
next
  case (passed q)
  then show ?thesis by simp
next
  case (fixed q qz wq)
  then show ?thesis
    by (cases "evaluate_report_quality (fst (accept_rewrite wq cur)) (a_template_cfg args)") auto
qed

lemma after_writer_raises:
  assumes "after_writer env args r1 d1 w1 c2 m w = (Inl e, w', t)"
  shows "e = CancelledError ''Job canceled by user.''
       \<or> (\<exists>rep. evaluate_report_quality rep (a_template_cfg args) = Inl e)"
  using assms
proof (cases rule: after_writer_cases)
  case (at_repair e')
  then show ?thesis using repair_phase_outcome[OF at_repair(1)] by auto
next
  case (at_review cur w4 t4 e' t5)
  then show ?thesis using review_phase_outcome[OF at_review(2)] by auto
next
  case (at_diagram cur w4 t4 rv w5 t5 e' t6)
  then show ?thesis using diagram_phase_outcome[OF at_diagram(3)] by auto
next
  case (at_quality cur w4 t4 rv w5 t5 dg w6 t6 e' t7)
  then show ?thesis using quality_phase_raises[of env args c2 m cur w6 e' w' t7] by auto
next
  case (finished cur w4 t4 rv w5 t5 dg w6 t6 cur' q t7)
  then show ?thesis by simp
qed

lemma after_writer_statuses:
  assumes "after_writer env args r1 d1 w1 c2 m w = (Inr out, w', t)"
  shows "(\<forall>r. (StepReview, r) \<in> set (invoked t) \<longrightarrow> status_reviewer out = Some r
            \<and> out_review out = (if ok r then get_or [] (p_review_text (payload r)) else []))
       \<and> (\<forall>r. (StepDiagram, r) \<in> set (invoked t) \<longrightarrow> status_diagram out = Some r
            \<and> out_figures out = (if ok r then get_or [] (p_figures_text (payload r)) else []))"
  using assms
proof (cases rule: after_writer_cases)
  case (finished cur w4 t4 rv w5 t5 dg w6 t6 cur' q t7)
  note st = repair_phase_steps[OF finished(1)] review_phase_steps[OF finished(2)]
    diagram_phase_steps[OF finished(3)] quality_phase_steps[OF finished(4)]
  have inv: "invoked t = invoked t4 @ invoked t5 @ invoked t6 @ invoked t7"
    using finished(6) by (simp add: invoked_simps)
  have rev: "status_reviewer out = Some r
      \<and> out_review out = (if ok r then get_or [] (p_review_text (payload r)) else [])"
    if "(StepReview, r) \<in> set (invoked t)" for r
  proof -
    have in5: "(StepReview, r) \<in> set (invoked t5)" using that(1) st unfolding inv by force
    from finished(2) show ?thesis
    proof (cases rule: review_phase_cases)
      case skipped
      then show ?thesis using in5 by (simp add: invoked_simps)
    next
      case cancelled
      then show ?thesis by simp
    next
      case (reviewed q rv')
      then have "r = rv'" using in5 by (simp add: invoked_simps invoked_quiet)
      then show ?thesis using reviewed finished(5) by auto
    qed
  qed
  have fig: "status_diagram out = Some r
      \<and> out_figures out = (if ok r then get_or [] (p_figures_text (payload r)) else [])"
    if "(StepDiagram, r) \<in> set (invoked t)" for r
  proof -
    have in6: "(StepDiagram, r) \<in> set (invoked t6)" using that(1) st unfolding inv by force
    from finished(3) show ?thesis
    proof (cases rule: diagram_phase_cases)
      case skipped
      then show ?thesis using in6 by (simp add: invoked_simps)
    next
      case cancelled
      then show ?thesis by simp
    next
      case (drawn q dg')
      then have "r = dg'" using in6 by (simp add: invoked_simps invoked_quiet)
      then show ?thesis using drawn finished(5) by auto
    qed
  qed
  show ?thesis using rev fig by blast
qed simp_all

lemma run_pipeline_goes_on:
  assumes run: "run_pipeline env args w0 = (res, w', tr)"
    and inv: "Invoke StepReview r \<in> set tr \<or> Invoke StepDiagram r \<in> set tr"
  shows "((\<exists>out. res = Inr out)
          \<or> res = Inl (CancelledError ''Job canceled by user.'')
          \<or> (\<exists>k rep. res = Inl (KeyError k)
                \<and> evaluate_report_quality rep (a_template_cfg args) = Inl (KeyError k)))
       \<and> (\<forall>out. res = Inr out \<and> Invoke StepReview r \<in> set tr \<longrightarrow> status_reviewer out = Some r
            \<and> out_review out = (if ok r then get_or [] (p_review_text (payload r)) else []))
       \<and> (\<forall>out. res = Inr out \<and> Invoke StepDiagram r \<in> set tr \<longrightarrow> status_diagram out = Some r
            \<and> out_figures out = (if ok r then get_or [] (p_figures_text (payload r)) else []))"
  using run
proof (cases rule: run_pipeline_cases)
  case research_cancelled
  then show ?thesis by simp
next
  case (research_failed q1 r1)
  then show ?thesis using inv by (simp add: Invoke_in_set invoked_simps invoked_quiet)
next
  case (data_cancelled q1 r1)
  then show ?thesis by simp
next
  case (data_failed q1 r1 q2 d1)
  then show ?thesis using inv by (simp add: Invoke_in_set invoked_simps invoked_quiet)
next
  case (writer_cancelled q1 r1 q2 d1)
  then show ?thesis by simp
next
  case (writer_failed q1 r1 q2 d1 q3 w1)
  then show ?thesis using inv by (simp add: Invoke_in_set invoked_simps invoked_quiet)
next
  case (written q1 r1 q2 d1 q3 w1 c2 m w3 t4)
  have i: "invoked tr = (StepResearch, r1) # (StepData, d1) # (StepWrite, w1) # invoked t4"
    using written by (simp add: invoked_simps invoked_quiet)
  have a: "(\<exists>out. res = Inr out)
          \<or> res = Inl (CancelledError ''Job canceled by user.'')
          \<or> (\<exists>k rep. res = Inl (KeyError k)
                \<and> evaluate_report_quality rep (a_template_cfg args) = Inl (KeyError k))"
  proof (cases res)
    case (Inr out)
    then show ?thesis by simp
  next
    case (Inl e)
    from after_writer_raises[OF written(7)[unfolded Inl]] show ?thesis
    proof
      assume "e = CancelledError ''Job canceled by user.''"
      then show ?thesis using Inl by simp
    next
      assume "\<exists>rep. evaluate_report_quality rep (a_template_cfg args) = Inl e"
      then obtain rep where t: "evaluate_report_quality rep (a_template_cfg args) = Inl e" by blast
      then obtain k where "e = KeyError k" using evaluate_report_quality_raises by blast
      then show ?thesis using Inl t by blast
    qed
  qed
  have b: "status_reviewer out = Some r
      \<and> out_review out = (if ok r then get_or [] (p_review_text (payload r)) else [])"
    if "res = Inr out" "Invoke StepReview r \<in> set tr" for out
    using after_writer_statuses[of env args r1 d1 w1 c2 m w3 out w' t4] written(7) that
    by (auto simp: Invoke_in_set i)
  have c: "status_diagram out = Some r
      \<and> out_figures out = (if ok r then get_or [] (p_figures_text (payload r)) else [])"
    if "res = Inr out" "Invoke StepDiagram r \<in> set tr" for out
    using after_writer_statuses[of env args r1 d1 w1 c2 m w3 out w' t4] written(7) that
    by (auto simp: Invoke_in_set i)
  show ?thesis using a b c by blast
qed

section \<open>C5: one call of the writer when the quality gate passes\<close>

text \<open>
  As stated the claim fails: the quality gate can pass on a text that the repair pass
  still finds incomplete. The gate looks for the header lines, the repair pass for empty
  sections. On the answer \<open>Objective:\n Conclusion:\n y\<close> of the text generator both
  header lines are there and the gate passes, but the section \<open>Objective\<close> is empty, so
  the writer (the agent of \<open>writer_agent.py\<close>) is called a second time.
\<close>

theorem write_once_counterexample:
  "evaluate_report_quality (''Objective:'' @ [LF] @ ''Conclusion:'' @ [LF] @ ''y'') oc_cfg
     = Inr \<lparr>q_ok = True, q_issues = [],
            q_sections = [(''Objective'', []), (''Conclusion'', ''y'')]\<rparr>
   \<and> writing_steps (snd (snd (run_pipeline
         (real_writer_env (''Objective:'' @ [LF] @ ''Conclusion:'' @ [LF] @ ''y''))
         (fake_args oc_cfg None) [])))
       = [StepWrite, StepWriteRepair]"
  by code_simp

text \<open>
  C5, amended. For every run of the pipeline in which the quality gate passes on the text
  of the first write and no required header has an empty section in the sections of the
  first write, the writer is called exactly once: neither the repair pass nor the
  quality-fix pass calls it.
\<close>

theorem write_once_when_quality_passes:
  assumes run: "run_pipeline env args w0 = (res, w', tr)"
    and first: "Invoke StepWrite w1 \<in> set tr"
    and gate: "evaluate_report_quality (get_or [] (p_report_text (payload w1))) (a_template_cfg args) = Inr q"
      "q_ok q"
    and nomiss: "missing_sections (writer_format (a_template_cfg args))
                   (get_or [] (p_sections (payload w1))) = []"
  shows "writing_steps tr = [StepWrite]"
  using run
proof (cases rule: run_pipeline_cases)
  case research_cancelled
  then show ?thesis using first by simp
next
  case (research_failed q1 r1)
  then show ?thesis using first by (simp add: Invoke_in_set invoked_simps invoked_quiet)
next
  case (data_cancelled q1 r1)
  then show ?thesis using first by (simp add: Invoke_in_set invoked_simps invoked_quiet)
next
  case (data_failed q1 r1 q2 d1)
  then show ?thesis using first by (simp add: Invoke_in_set invoked_simps invoked_quiet)
next
  case (writer_cancelled q1 r1 q2 d1)
  then show ?thesis using first by (simp add: Invoke_in_set invoked_simps invoked_quiet)
next
  case (writer_failed q1 r1 q2 d1 q3 wr)
  then show ?thesis by (simp add: writing_steps_simps writing_steps_quiet)
next
  case (written q1 r1 q2 d1 q3 wr c2 m w3 t4)
  have "w1 = wr"
    using first_write_unique(1)[OF written(7,8) written(1,3,5), of w1] first by simp
  then have "writing_steps t4 = []"
    using after_writer_single_write[OF written(7)] gate nomiss by simp
  then show ?thesis using written by (simp add: writing_steps_simps writing_steps_quiet)
qed

theorem write_once_when_quality_passes_witness:
  "writing_steps (snd (snd (run_pipeline complete_env (fake_args oc_cfg None) []))) = [StepWrite]"
proof -
  let ?R = "run_pipeline complete_env (fake_args oc_cfg None) []"
  let ?q = "\<lparr>q_ok = True, q_issues = [],
            q_sections = [(''Objective'', ''A''), (''Conclusion'', ''B'')]\<rparr>"
  have run: "?R = (fst ?R, fst (snd ?R), snd (snd ?R))" by simp
  have first: "Invoke StepWrite complete_draft \<in> set (snd (snd ?R))" by code_simp
  have gate: "evaluate_report_quality (get_or [] (p_report_text (payload complete_draft)))
                (a_template_cfg (fake_args oc_cfg None)) = Inr ?q"
    by code_simp
  have pass: "q_ok ?q" by simp
  have nomiss: "missing_sections (writer_format (a_template_cfg (fake_args oc_cfg None)))
                  (get_or [] (p_sections (payload complete_draft))) = []"
    by code_simp
  show ?thesis using run first gate pass nomiss by (rule write_once_when_quality_passes)
qed

section \<open>C2: one repair\<close>

text \<open>
  As stated the claim fails: after the one repair the quality gate can ask for a third
  call of the writer. The template requires \<open>Objective\<close> and \<open>Conclusion\<close>; the writer
  returns the draft without \<open>Conclusion\<close> every time it is asked. The repair changes
  nothing, the gate then misses the header \<open>Conclusion\<close>, and the quality-fix pass calls
  the writer again; the run returns the first draft.
\<close>

theorem one_repair_counterexample:
  "missing_sections (writer_format oc_cfg) (get_or [] (p_sections (payload first_draft)))
     = [''Conclusion'']
   \<and> map_sum id out_report (fst (run_pipeline (stubborn_env []) (fake_args oc_cfg None) []))
       = Inr (''Objective:'' @ [LF] @ ''x'')
   \<and> writing_steps (snd (snd (run_pipeline (stubborn_env []) (fake_args oc_cfg None) [])))
       = [StepWrite, StepWriteRepair, StepQualityFix]"
  by code_simp

text \<open>
  C2, amended. For every run of the pipeline that returns a result, in which the template
  defines required headers and some required header has an empty or whitespace-only section
  after the first write: the repair pass calls the writer exactly once more, and the writer
  is called two times in all when the quality gate passes on the report the repair pass
  leaves, three times (the quality-fix pass) when it does not; there is no second repair.
\<close>

theorem one_repair_then_quality_fix:
  assumes run: "run_pipeline env args w0 = (Inr out, w', tr)"
    and first: "Invoke StepWrite w1 \<in> set tr"
    and fmt: "writer_format (a_template_cfg args) \<noteq> []"
    and miss: "missing_sections (writer_format (a_template_cfg args))
                 (get_or [] (p_sections (payload w1))) \<noteq> []"
  shows "\<exists>w2 q. Invoke StepWriteRepair w2 \<in> set tr \<and>
           evaluate_report_quality
             (fst (accept_rewrite w2 (get_or [] (p_report_text (payload w1)),
                                      get_or [] (p_sections (payload w1)))))
             (a_template_cfg args) = Inr q \<and>
           writing_steps tr =
             (if q_ok q then [StepWrite, StepWriteRepair]
              else [StepWrite, StepWriteRepair, StepQualityFix])"
  using run
proof (cases rule: run_pipeline_cases)
  case (written q1 r1 q2 d1 q3 wr c2 m w3 t4)
  have w: "w1 = wr"
    using first_write_unique(1)[OF written(7,8) written(1,3,5), of w1] first by simp
  let ?cur0 = "(get_or [] (p_report_text (payload wr)), get_or [] (p_sections (payload wr)))"
  from written(7) show ?thesis
  proof (cases rule: after_writer_cases)
    case (finished cur w4 t4' rv w5 t5 dg w6 t6 cur' q t7)
    from finished(1) obtain qr w2 where rep: "quiet qr" "cur = accept_rewrite w2 ?cur0"
      "t4' = qr @ [Invoke StepWriteRepair w2]"
    proof (cases rule: repair_phase_cases)
      case skipped
      then show ?thesis using fmt miss w by simp
    next
      case cancelled
      then show ?thesis by simp
    next
      case (repaired q w2)
      then show ?thesis using that[of q w2] by simp
    qed
    have mid: "writing_steps t5 = []" "writing_steps t6 = []"
      using review_phase_writing[OF finished(2)] diagram_phase_writing[OF finished(3)] by simp_all
    have pre: "writing_steps tr = [StepWrite, StepWriteRepair] @ writing_steps t7"
      using written(1,3,5,8) finished(6) rep(1,3) mid
      by (simp add: writing_steps_simps writing_steps_quiet)
    have inv: "Invoke StepWriteRepair w2 \<in> set tr"
      using written(8) finished(6) rep(3) by simp
    from finished(4) show ?thesis
    proof (cases rule: quality_phase_cases)
      case (raised e)
      then show ?thesis by simp
    next
      case (passed q0)
      then show ?thesis using pre inv rep(2) w
        by (intro exI[of _ w2] exI[of _ q0]) (simp add: writing_steps_simps)
    next
      case (fixed q0 qz wq)
      then show ?thesis using pre inv rep(2) w
        by (intro exI[of _ w2] exI[of _ q0]) (simp add: writing_steps_simps writing_steps_quiet)
    qed
  qed simp_all
qed (simp_all add: step_error_def split: option.splits)

theorem one_repair_then_quality_fix_witness:
  "\<exists>w2 q. Invoke StepWriteRepair w2
            \<in> set (snd (snd (run_pipeline repairing_env (fake_args oc_cfg None) []))) \<and>
     evaluate_report_quality
       (fst (accept_rewrite w2 (get_or [] (p_report_text (payload first_draft)),
                                get_or [] (p_sections (payload first_draft)))))
       (a_template_cfg (fake_args oc_cfg None)) = Inr q \<and>
     writing_steps (snd (snd (run_pipeline repairing_env (fake_args oc_cfg None) []))) =
       (if q_ok q then [StepWrite, StepWriteRepair]
        else [StepWrite, StepWriteRepair, StepQualityFix])"
proof -
  let ?R = "run_pipeline repairing_env (fake_args oc_cfg None) []"
  have "\<not> isl (fst ?R)" by code_simp
  then obtain out where "fst ?R = Inr out" by (cases "fst ?R") auto
  then have run: "?R = (Inr out, fst (snd ?R), snd (snd ?R))" by (metis prod.collapse)
  have first: "Invoke StepWrite first_draft \<in> set (snd (snd ?R))" by code_simp
  have fmt: "writer_format (a_template_cfg (fake_args oc_cfg None)) \<noteq> []" by code_simp
  have miss: "missing_sections (writer_format (a_template_cfg (fake_args oc_cfg None)))
                (get_or [] (p_sections (payload first_draft))) \<noteq> []"
    by code_simp
  show ?thesis using run first fmt miss by (rule one_repair_then_quality_fix)
qed

text \<open>
  The scenario of the specification: the repaired draft has the section \<open>Conclusion\<close> with
  the body \<open>y\<close>, the writer is called twice and the report that is returned is the
  repaired one.
\<close>

lemma repair_scenario:
  "writing_steps (snd (snd (run_pipeline repairing_env (fake_args oc_cfg None) [])))
     = [StepWrite, StepWriteRepair]
   \<and> map_sum id out_report (fst (run_pipeline repairing_env (fake_args oc_cfg None) []))
       = Inr (''Objective:'' @ [LF] @ ''x'' @ [LF, LF] @ ''Conclusion:'' @ [LF] @ ''y'')
   \<and> map_sum id out_report_sections (fst (run_pipeline repairing_env (fake_args oc_cfg None) []))
       = Inr [(''Objective'', ''x''), (''Conclusion'', ''y'')]"
  by code_simp

section \<open>C10: the diagram step is on by default\<close>

text \<open>
  As stated the claim fails on the runs that end before the diagram step: here the data
  summary is not empty and the template has no key \<open>include_figures\<close>, but the writer fails
  and the run is aborted after three calls, none of them of the diagram agent.
\<close>

theorem diagram_default_counterexample:
  "get_or [] (p_data_summary (payload (fake_data [(''n_total'', JInt 3)]))) = [(''n_total'', JInt 3)]
   \<and> include_figures oc_cfg = None
   \<and> fst (run_pipeline failing_writer_env (fake_args oc_cfg None) [])
       = Inl (RuntimeError ''[writer] Writer agent failed: LLMError: boom'')
   \<and> trace_outline (snd (snd (run_pipeline failing_writer_env (fake_args oc_cfg None) [])))
       = [Inr StepResearch, Inr StepData, Inr StepWrite]"
  by code_simp

text \<open>
  C10, amended. When the template has no key \<open>include_figures\<close>, the diagram step counts as
  enabled: in every run with a non-empty data summary and no such key that is not aborted
  (by a cancellation or by a failure of research, data or the first write), the diagram
  agent is called.
\<close>

theorem diagram_enabled_by_default:
  assumes run: "run_pipeline env args w0 = (res, w', tr)"
    and data: "Invoke StepData d1 \<in> set tr"
    and summary: "get_or [] (p_data_summary (payload d1)) \<noteq> []"
    and nokey: "include_figures (a_template_cfg args) = None"
    and going: "\<not> aborted tr"
  shows "\<exists>dg. Invoke StepDiagram dg \<in> set tr"
  using run
proof (cases rule: run_pipeline_cases)
  case research_cancelled
  then show ?thesis using going by (simp add: aborted_def fatal_def)
next
  case (research_failed q1 r1)
  then show ?thesis using going by (simp add: aborted_def fatal_def)
next
  case (data_cancelled q1 r1)
  then show ?thesis using going by (simp add: aborted_def fatal_def)
next
  case (data_failed q1 r1 q2 d)
  then show ?thesis using going by (simp add: aborted_def fatal_def)
next
  case (writer_cancelled q1 r1 q2 d)
  then show ?thesis using going by (simp add: aborted_def fatal_def)
next
  case (writer_failed q1 r1 q2 d q3 wr)
  then show ?thesis using going by (simp add: aborted_def fatal_def)
next
  case (written q1 r1 q2 d q3 wr c2 m w3 t4)
  have d: "d1 = d"
    using first_write_unique(2)[OF written(7,8) written(1,3,5), of d1] data by simp
  have cancelled_aborts: "aborted tr" if "t4 = pre @ [CancelCheck True]" for pre
    using written(8) that by (simp add: aborted_def fatal_def)
  have drawn: "\<exists>dg. Invoke StepDiagram dg \<in> set t6"
    if "diagram_phase env args (get_or [] (p_theory_text (payload r1)))
          (get_or [] (p_data_summary (payload d))) w5 = (Inr dg, w6, t6)" for dg w5 w6 t6
    using that
  proof (cases rule: diagram_phase_cases)
    case skipped
    then show ?thesis using nokey summary d by simp
  next
    case cancelled
    then show ?thesis by simp
  next
    case (drawn q dg')
    then show ?thesis by auto
  qed
  from written(7) show ?thesis
  proof (cases rule: after_writer_cases)
    case (at_repair e)
    from at_repair(1) show ?thesis
    proof (cases rule: repair_phase_cases)
      case cancelled
      then show ?thesis using cancelled_aborts[of "[]"] going by simp
    qed simp_all
  next
    case (at_review cur w4 t4' e t5)
    from at_review(2) show ?thesis
    proof (cases rule: review_phase_cases)
      case cancelled
      then show ?thesis using cancelled_aborts[of t4'] at_review(4) going by simp
    qed simp_all
  next
    case (at_diagram cur w4 t4' rv w5 t5 e t6)
    from at_diagram(3) show ?thesis
    proof (cases rule: diagram_phase_cases)
      case cancelled
      then show ?thesis using cancelled_aborts[of "t4' @ t5"] at_diagram(5) going by simp
    qed simp_all
  next
    case (at_quality cur w4 t4' rv w5 t5 dg w6 t6 e t7)
    then show ?thesis using drawn[OF at_quality(3)] written(8) by auto
  next
    case (finished cur w4 t4' rv w5 t5 dg w6 t6 cur' q t7)
    then show ?thesis using drawn[OF finished(3)] written(8) by auto
  qed
qed

theorem diagram_enabled_by_default_witness:
  "\<exists>dg. Invoke StepDiagram dg
          \<in> set (snd (snd (run_pipeline repairing_env (fake_args oc_cfg None) [])))"
proof -
  let ?R = "run_pipeline repairing_env (fake_args oc_cfg None) []"
  have run: "?R = (fst ?R, fst (snd ?R), snd (snd ?R))" by simp
  have data: "Invoke StepData (fake_data [(''n_total'', JInt 3)]) \<in> set (snd (snd ?R))"
    by code_simp
  have summary: "get_or [] (p_data_summary (payload (fake_data [(''n_total'', JInt 3)]))) \<noteq> []"
    by code_simp
  have nokey: "include_figures (a_template_cfg (fake_args oc_cfg None)) = None" by code_simp
  have going: "\<not> aborted (snd (snd ?R))" by code_simp
  show ?thesis using run data summary nokey going by (rule diagram_enabled_by_default)
qed

section \<open>C6: the failures that abort a run and those that do not\<close>

text \<open>
  C6. Let every agent return a result that is a success or carries an error (C9). Then
  \<open>run_pipeline\<close> raises a \<open>RuntimeError\<close> if and only if research, data or the first
  write was called and returned a failure, and the message of that error names the step
  and gives the message and the detail of the failure; it raises the cancellation signal,
  which is no such error, if and only if the cancellation predicate has answered yes. A
  failure of the reviewer or of the diagram agent does not end the run. A run in which
  one of them was called raises no \<open>RuntimeError\<close>; it returns the aggregate, unless the
  predicate answers yes at a later step or the quality gate itself raises, a \<open>KeyError\<close>
  that it raises on no text when the headers of the template have no whitespace at their
  ends. So, with such headers and no yes of the predicate, the run returns the aggregate.
  In the aggregate the status of the step is the result the agent returned, and the
  review text, or the figures text, is the text of that result when it is a success and
  the empty text when it is a failure.
\<close>

theorem fatal_and_degraded_failures:
  assumes run: "run_pipeline env args w0 = (res, w', tr)"
    and wf: "\<forall>s r. Invoke s r \<in> set tr \<longrightarrow> \<not> ok r \<longrightarrow> error r \<noteq> None"
  shows "((\<exists>m. res = Inl (RuntimeError m)) \<longleftrightarrow>
            (\<exists>s r. Invoke s r \<in> set tr
               \<and> (s = StepResearch \<or> s = StepData \<or> s = StepWrite) \<and> \<not> ok r))
       \<and> (\<forall>s r e. Invoke s r \<in> set tr
               \<and> (s = StepResearch \<or> s = StepData \<or> s = StepWrite) \<and> \<not> ok r \<and> error r = Some e
             \<longrightarrow> res = Inl (RuntimeError (''['' @ step_name s @ ''] '' @ message e @ '': ''
                                @ str_opt (err_detail e))))
       \<and> (res = Inl (CancelledError ''Job canceled by user.'') \<longleftrightarrow> CancelCheck True \<in> set tr)
       \<and> (\<forall>m. res = Inl (CancelledError m) \<longrightarrow> m = ''Job canceled by user.'')
       \<and> (\<forall>r. Invoke StepReview r \<in> set tr \<or> Invoke StepDiagram r \<in> set tr
             \<longrightarrow> (\<forall>m. res \<noteq> Inl (RuntimeError m))
               \<and> ((\<exists>out. res = Inr out)
                  \<or> res = Inl (CancelledError ''Job canceled by user.'')
                  \<or> (\<exists>k rep. res = Inl (KeyError k)
                        \<and> evaluate_report_quality rep (a_template_cfg args) = Inl (KeyError k))))
       \<and> (\<forall>r. (Invoke StepReview r \<in> set tr \<or> Invoke StepDiagram r \<in> set tr)
               \<and> CancelCheck True \<notin> set tr
               \<and> (\<forall>h\<in>set (writer_format (a_template_cfg args)). strip h = h)
             \<longrightarrow> (\<exists>out. res = Inr out))
       \<and> (\<forall>out r. res = Inr out \<and> Invoke StepReview r \<in> set tr
             \<longrightarrow> status_reviewer out = Some r
               \<and> out_review out = (if ok r then get_or [] (p_review_text (payload r)) else []))
       \<and> (\<forall>out r. res = Inr out \<and> Invoke StepDiagram r \<in> set tr
             \<longrightarrow> status_diagram out = Some r
               \<and> out_figures out = (if ok r then get_or [] (p_figures_text (payload r)) else []))"
proof -
  note e = run_pipeline_errors[OF run wf]
  have c1: "(\<exists>m. res = Inl (RuntimeError m)) \<longleftrightarrow>
            (\<exists>s r. Invoke s r \<in> set tr
               \<and> (s = StepResearch \<or> s = StepData \<or> s = StepWrite) \<and> \<not> ok r)"
  proof
    assume "\<exists>m. res = Inl (RuntimeError m)"
    then obtain pre s r where "tr = pre @ [Invoke s r]"
      "s = StepResearch \<or> s = StepData \<or> s = StepWrite" "\<not> ok r"
      using e by blast
    then show "\<exists>s r. Invoke s r \<in> set tr
               \<and> (s = StepResearch \<or> s = StepData \<or> s = StepWrite) \<and> \<not> ok r"
      by auto
  next
    assume "\<exists>s r. Invoke s r \<in> set tr
               \<and> (s = StepResearch \<or> s = StepData \<or> s = StepWrite) \<and> \<not> ok r"
    then obtain s r where a: "Invoke s r \<in> set tr"
      "s = StepResearch \<or> s = StepData \<or> s = StepWrite" "\<not> ok r" by blast
    then show "\<exists>m. res = Inl (RuntimeError m)" using failure_is_last[OF run a] e by blast
  qed
  have c2: "\<forall>s r e. Invoke s r \<in> set tr
               \<and> (s = StepResearch \<or> s = StepData \<or> s = StepWrite) \<and> \<not> ok r \<and> error r = Some e
             \<longrightarrow> res = Inl (RuntimeError (''['' @ step_name s @ ''] '' @ message e @ '': ''
                                @ str_opt (err_detail e)))"
  proof (intro allI impI)
    fix s r x
    assume a: "Invoke s r \<in> set tr
               \<and> (s = StepResearch \<or> s = StepData \<or> s = StepWrite) \<and> \<not> ok r \<and> error r = Some x"
    then obtain pre where "tr = pre @ [Invoke s r]" using failure_is_last[OF run] by blast
    then show "res = Inl (RuntimeError (''['' @ step_name s @ ''] '' @ message x @ '': ''
                                @ str_opt (err_detail x)))"
      using e a by blast
  qed
  have c3: "res = Inl (CancelledError ''Job canceled by user.'') \<longleftrightarrow> CancelCheck True \<in> set tr"
    using cancelled_iff_asked[OF run] by simp
  have c4: "\<forall>m. res = Inl (CancelledError m) \<longrightarrow> m = ''Job canceled by user.''"
    using run_pipeline_outcome[OF run] wf by (auto simp: step_error_def split: option.splits)
  have g: "((\<exists>out. res = Inr out)
          \<or> res = Inl (CancelledError ''Job canceled by user.'')
          \<or> (\<exists>k rep. res = Inl (KeyError k)
                \<and> evaluate_report_quality rep (a_template_cfg args) = Inl (KeyError k)))
       \<and> (\<forall>out. res = Inr out \<and> Invoke StepReview r \<in> set tr \<longrightarrow> status_reviewer out = Some r
            \<and> out_review out = (if ok r then get_or [] (p_review_text (payload r)) else []))
       \<and> (\<forall>out. res = Inr out \<and> Invoke StepDiagram r \<in> set tr \<longrightarrow> status_diagram out = Some r
            \<and> out_figures out = (if ok r then get_or [] (p_figures_text (payload r)) else []))"
    if "Invoke StepReview r \<in> set tr \<or> Invoke StepDiagram r \<in> set tr" for r
    using run that by (rule run_pipeline_goes_on)
  have c5: "\<forall>r. Invoke StepReview r \<in> set tr \<or> Invoke StepDiagram r \<in> set tr
             \<longrightarrow> (\<forall>m. res \<noteq> Inl (RuntimeError m))
               \<and> ((\<exists>out. res = Inr out)
                  \<or> res = Inl (CancelledError ''Job canceled by user.'')
                  \<or> (\<exists>k rep. res = Inl (KeyError k)
                        \<and> evaluate_report_quality rep (a_template_cfg args) = Inl (KeyError k)))"
    using g by fastforce
  have c6: "\<forall>r. (Invoke StepReview r \<in> set tr \<or> Invoke StepDiagram r \<in> set tr)
               \<and> CancelCheck True \<notin> set tr
               \<and> (\<forall>h\<in>set (writer_format (a_template_cfg args)). strip h = h)
             \<longrightarrow> (\<exists>out. res = Inr out)"
  proof (intro allI impI)
    fix r
    assume a: "(Invoke StepReview r \<in> set tr \<or> Invoke StepDiagram r \<in> set tr)
               \<and> CancelCheck True \<notin> set tr
               \<and> (\<forall>h\<in>set (writer_format (a_template_cfg args)). strip h = h)"
    then have nc: "res \<noteq> Inl (CancelledError ''Job canceled by user.'')" using c3 by simp
    have nk: "evaluate_report_quality rep (a_template_cfg args) \<noteq> Inl x" for rep x
      using evaluate_report_quality_returns[of "a_template_cfg args" rep] a by auto
    from g[of r] a nc nk show "\<exists>out. res = Inr out" by blast
  qed
  have c7: "\<forall>out r. res = Inr out \<and> Invoke StepReview r \<in> set tr
             \<longrightarrow> status_reviewer out = Some r
               \<and> out_review out = (if ok r then get_or [] (p_review_text (payload r)) else [])"
    using g by blast
  have c8: "\<forall>out r. res = Inr out \<and> Invoke StepDiagram r \<in> set tr
             \<longrightarrow> status_diagram out = Some r
               \<and> out_figures out = (if ok r then get_or [] (p_figures_text (payload r)) else [])"
    using g by blast
  show ?thesis by (intro conjI c1 c2 c3 c4 c5 c6 c7 c8)
qed

theorem fatal_and_degraded_failures_witness:
  "fst (run_pipeline failing_research_env (fake_args oc_cfg None) [])
     = Inl (RuntimeError ''[research] Research agent failed: LLMError: boom'')
   \<and> (\<exists>out. fst (run_pipeline failing_reviewer_env review_args []) = Inr out
         \<and> out_review out = [] \<and> out_figures out = []
         \<and> status_reviewer out = Some (boom Reviewer ''Reviewer agent failed'')
         \<and> status_diagram out = Some (boom Diagram ''Diagram agent failed''))"
proof -
  let ?R = "run_pipeline failing_research_env (fake_args oc_cfg None) []"
  let ?r = "boom Research ''Research agent failed''"
  let ?e = "\<lparr>message = ''Research agent failed'', err_detail = Some ''LLMError: boom''\<rparr>"
  have run: "?R = (fst ?R, fst (snd ?R), snd (snd ?R))" by simp
  have tr: "snd (snd ?R) = [Invoke StepResearch ?r]" by code_simp
  have wf: "\<forall>s r. Invoke s r \<in> set (snd (snd ?R)) \<longrightarrow> \<not> ok r \<longrightarrow> error r \<noteq> None"
    unfolding tr by (simp add: boom_def fail_def)
  have e: "Invoke StepResearch ?r \<in> set (snd (snd ?R))" "error ?r = Some ?e" "\<not> ok ?r"
    unfolding tr by (simp_all add: boom_def fail_def)
  have "fst ?R = Inl (RuntimeError (''['' @ step_name StepResearch @ ''] '' @ message ?e
          @ '': '' @ str_opt (err_detail ?e)))"
    using fatal_and_degraded_failures[OF run wf] e by blast
  then have a: "fst ?R = Inl (RuntimeError ''[research] Research agent failed: LLMError: boom'')"
    by (simp add: step_name_def str_opt_def)
  let ?S = "run_pipeline failing_reviewer_env review_args []"
  let ?rv = "boom Reviewer ''Reviewer agent failed''"
  let ?dg = "boom Diagram ''Diagram agent failed''"
  have run2: "?S = (fst ?S, fst (snd ?S), snd (snd ?S))" by simp
  have tr2: "snd (snd ?S) = [Invoke StepResearch fake_research,
       Invoke StepData (fake_data [(''n_total'', JInt 3)]), Invoke StepWrite complete_draft,
       Invoke StepReview ?rv, Invoke StepDiagram ?dg]" by code_simp
  have wf2: "\<forall>s r. Invoke s r \<in> set (snd (snd ?S)) \<longrightarrow> \<not> ok r \<longrightarrow> error r \<noteq> None"
    unfolding tr2
    by (auto simp: boom_def fail_def fake_research_def fake_data_def complete_draft_def
        fake_writer_def success_def)
  have trimmed: "\<forall>h\<in>set (writer_format (a_template_cfg review_args)). strip h = h"
    by code_simp
  have nocancel: "CancelCheck True \<notin> set (snd (snd ?S))" unfolding tr2 by simp
  have rv: "Invoke StepReview ?rv \<in> set (snd (snd ?S))" "\<not> ok ?rv"
    and dg: "Invoke StepDiagram ?dg \<in> set (snd (snd ?S))" "\<not> ok ?dg"
    unfolding tr2 by (simp_all add: boom_def fail_def)
  note t = fatal_and_degraded_failures[OF run2 wf2]
  from t rv(1) nocancel trimmed obtain out where out: "fst ?S = Inr out" by blast
  from t out rv have "status_reviewer out = Some ?rv \<and> out_review out = []" by simp
  moreover from t out dg have "status_diagram out = Some ?dg \<and> out_figures out = []" by simp
  ultimately show ?thesis using a out by blast
qed

text \<open>The run with the failing reviewer and diagram agent calls all five steps.\<close>

lemma failing_reviewer_run:
  "trace_outline (snd (snd (run_pipeline failing_reviewer_env review_args [])))
     = [Inr StepResearch, Inr StepData, Inr StepWrite, Inr StepReview, Inr StepDiagram]
   \<and> fst (snd (run_pipeline failing_reviewer_env review_args []))
     = [Research, Data, Writer, Reviewer, Diagram]"
  by code_simp

section \<open>C3: the cancellation predicate\<close>

text \<open>
  The scenario of the claim holds: the predicate says yes once the research step has run,
  and the run ends with the cancellation signal before data is called.
\<close>

lemma cancel_before_data:
  "fst (run_pipeline complete_env (fake_args oc_cfg (Some cancel_after_research)) [])
     = Inl (CancelledError ''Job canceled by user.'')
   \<and> trace_outline (snd (snd (run_pipeline complete_env
         (fake_args oc_cfg (Some cancel_after_research)) [])))
       = [Inl False, Inr StepResearch, Inl True]
   \<and> fst (snd (run_pipeline complete_env (fake_args oc_cfg (Some cancel_after_research)) []))
       = [Research]"
  by code_simp

text \<open>
  The traces of the steps, read for the calls that no question to the predicate precedes.
\<close>

lemma unasked_iff:
  "unasked_only_quality_fix t \<longleftrightarrow> (\<forall>a. set (unchecked_steps a t) \<subseteq> {StepQualityFix})"
proof
  assume "unasked_only_quality_fix t"
  then have f: "set (unchecked_steps False t) \<subseteq> {StepQualityFix}"
    and t: "set (unchecked_steps True t) \<subseteq> {StepQualityFix}"
    by (auto simp: unasked_only_quality_fix_def list_all_iff)
  show "\<forall>a. set (unchecked_steps a t) \<subseteq> {StepQualityFix}"
  proof
    fix a show "set (unchecked_steps a t) \<subseteq> {StepQualityFix}"
      using f t by (cases a) simp_all
  qed
next
  assume a: "\<forall>a. set (unchecked_steps a t) \<subseteq> {StepQualityFix}"
  from a[rule_format, of False] a[rule_format, of True]
  show "unasked_only_quality_fix t"
    by (auto simp: unasked_only_quality_fix_def list_all_iff)
qed

lemma unasked_Nil: "unasked_only_quality_fix []"
  by (simp add: unasked_iff)

lemma unchecked_progress:
  "unchecked_steps a ((case cb of None \<Rightarrow> [] | Some f \<Rightarrow> [Progress n k]) @ t) = unchecked_steps a t"
  by (cases cb) simp_all

lemma guarded_call_trace:
  assumes "should_cancel args = Some p"
    and "bindM (check_cancel args) (\<lambda>_. bindM (progress args n k) (\<lambda>_. bindM (invoke s run) f)) w
           = (res, w', tr)"
  shows "tr = [CancelCheck True]
       \<or> (\<exists>r w1 t2. tr = CancelCheck False
              # (case progress_cb args of None \<Rightarrow> [] | Some cb \<Rightarrow> [Progress n k])
              @ Invoke s r # t2 \<and> f r w1 = (res, w', t2))"
  using assms
  unfolding bindM_def check_cancel_def progress_def invoke_def
  by (auto split: prod.splits sum.splits option.splits bool.splits)

lemma guarded_call_unasked:
  assumes "should_cancel args = Some p"
    and "bindM (check_cancel args) (\<lambda>_. bindM (progress args n k) (\<lambda>_. bindM (invoke s run) f)) w
           = (res, w', tr)"
    and "\<And>r w1 t2. f r w1 = (res, w', t2) \<Longrightarrow> t2 = []"
    and "unasked_only_quality_fix rest"
  shows "unasked_only_quality_fix (tr @ rest)"
proof -
  from guarded_call_trace[OF assms(1,2)] show ?thesis
  proof
    assume "tr = [CancelCheck True]"
    then show ?thesis using assms(4) by (simp add: unasked_iff)
  next
    assume "\<exists>r w1 t2. tr = CancelCheck False
              # (case progress_cb args of None \<Rightarrow> [] | Some cb \<Rightarrow> [Progress n k])
              @ Invoke s r # t2 \<and> f r w1 = (res, w', t2)"
    then obtain r w1 t2 where t: "tr = CancelCheck False
              # (case progress_cb args of None \<Rightarrow> [] | Some cb \<Rightarrow> [Progress n k])
              @ Invoke s r # t2" "f r w1 = (res, w', t2)" by blast
    then have "t2 = []" using assms(3) by blast
    then show ?thesis using t(1) assms(4) by (simp add: unasked_iff unchecked_progress)
  qed
qed

lemma checked_phase_unasked:
  assumes "should_cancel args = Some p" "unasked_only_quality_fix rest"
  shows "research_phase env args c w = (res, w', t) \<Longrightarrow> unasked_only_quality_fix (t @ rest)"
    and "data_phase env args c w = (res, w', t) \<Longrightarrow> unasked_only_quality_fix (t @ rest)"
    and "writer_phase env args c2 w = (res, w', t) \<Longrightarrow> unasked_only_quality_fix (t @ rest)"
  unfolding research_phase_def data_phase_def writer_phase_def
  by (erule guarded_call_unasked[OF assms(1) _ _ assms(2)];
      auto simp: returnM_def raiseM_def split: if_splits)+

lemma repair_phase_unasked:
  assumes "should_cancel args = Some p" "unasked_only_quality_fix rest"
    and "repair_phase env args c2 m cur w = (res, w', t)"
  shows "unasked_only_quality_fix (t @ rest)"
proof (cases "writer_format (a_template_cfg args) \<noteq> [] \<and>
      missing_sections (writer_format (a_template_cfg args)) (snd cur) \<noteq> []")
  case False
  then have "t = []" using assms(3) by (auto simp: repair_phase_def Let_def returnM_def)
  then show ?thesis using assms(2) by simp
next
  case True
  then show ?thesis using assms(3) unfolding repair_phase_def Let_def
    by (auto elim!: guarded_call_unasked[OF assms(1) _ _ assms(2)] simp: returnM_def)
qed

lemma review_phase_unasked:
  assumes "should_cancel args = Some p" "unasked_only_quality_fix rest"
    and "review_phase env args txt w = (res, w', t)"
  shows "unasked_only_quality_fix (t @ rest)"
proof (cases "a_include_review args \<and> include_review (a_template_cfg args) = Some True")
  case False
  then have "t = []" using assms(3) by (auto simp: review_phase_def Let_def returnM_def)
  then show ?thesis using assms(2) by simp
next
  case True
  then show ?thesis using assms(3) unfolding review_phase_def Let_def
    by (auto elim!: guarded_call_unasked[OF assms(1) _ _ assms(2)] simp: returnM_def)
qed

lemma diagram_phase_unasked:
  assumes "should_cancel args = Some p" "unasked_only_quality_fix rest"
    and "diagram_phase env args th ds w = (res, w', t)"
  shows "unasked_only_quality_fix (t @ rest)"
proof (cases "(case include_figures (a_template_cfg args) of None \<Rightarrow> True | Some b \<Rightarrow> b) \<and> ds \<noteq> []")
  case False
  then have "t = []" using assms(3) by (auto simp: diagram_phase_def Let_def returnM_def)
  then show ?thesis using assms(2) by simp
next
  case True
  then show ?thesis using assms(3) unfolding diagram_phase_def Let_def
    by (auto elim!: guarded_call_unasked[OF assms(1) _ _ assms(2)] simp: returnM_def)
qed

lemma unchecked_quiet_call:
  "quiet q \<Longrightarrow> set (unchecked_steps a (q @ [Invoke s r])) \<subseteq> {s}"
proof (induction q arbitrary: a)
  case Nil then show ?case by simp
next
  case (Cons e q)
  then show ?case by (cases e) (simp_all add: quiet_def)
qed

lemma quality_phase_unasked:
  assumes "quality_phase env args c2 m cur w = (res, w', t)"
  shows "unasked_only_quality_fix t"
  using assms
  by (cases rule: quality_phase_cases) (simp_all add: unasked_iff unchecked_quiet_call)

lemma after_writer_unasked:
  assumes "should_cancel args = Some p"
    and "after_writer env args r1 d1 w1 c2 m w = (res, w', t)"
  shows "unasked_only_quality_fix t"
  using assms(2)
proof (cases rule: after_writer_cases)
  case (at_repair e)
  then show ?thesis using repair_phase_unasked[OF assms(1) unasked_Nil at_repair(1)] by simp
next
  case (at_review cur w4 t4 e t5)
  have "unasked_only_quality_fix (t5 @ [])" using assms(1) unasked_Nil at_review(2) by (rule review_phase_unasked)
  then have "unasked_only_quality_fix (t4 @ t5)" using repair_phase_unasked[OF assms(1) _ at_review(1)] by simp
  then show ?thesis using at_review(4) by simp
next
  case (at_diagram cur w4 t4 rv w5 t5 e t6)
  have "unasked_only_quality_fix (t6 @ [])" using assms(1) unasked_Nil at_diagram(3) by (rule diagram_phase_unasked)
  then have "unasked_only_quality_fix (t5 @ t6)" using review_phase_unasked[OF assms(1) _ at_diagram(2)] by simp
  then have "unasked_only_quality_fix (t4 @ t5 @ t6)" using repair_phase_unasked[OF assms(1) _ at_diagram(1)] by simp
  then show ?thesis using at_diagram(5) by simp
next
  case (at_quality cur w4 t4 rv w5 t5 dg w6 t6 e t7)
  have "unasked_only_quality_fix t7" using at_quality(4) by (rule quality_phase_unasked)
  then have "unasked_only_quality_fix (t6 @ t7)" using diagram_phase_unasked[OF assms(1) _ at_quality(3)] by simp
  then have "unasked_only_quality_fix (t5 @ t6 @ t7)" using review_phase_unasked[OF assms(1) _ at_quality(2)] by simp
  then have "unasked_only_quality_fix (t4 @ t5 @ t6 @ t7)" using repair_phase_unasked[OF assms(1) _ at_quality(1)] by simp
  then show ?thesis using at_quality(6) by simp
next
  case (finished cur w4 t4 rv w5 t5 dg w6 t6 cur' q t7)
  have "unasked_only_quality_fix t7" using finished(4) by (rule quality_phase_unasked)
  then have "unasked_only_quality_fix (t6 @ t7)" using diagram_phase_unasked[OF assms(1) _ finished(3)] by simp
  then have "unasked_only_quality_fix (t5 @ t6 @ t7)" using review_phase_unasked[OF assms(1) _ finished(2)] by simp
  then have "unasked_only_quality_fix (t4 @ t5 @ t6 @ t7)" using repair_phase_unasked[OF assms(1) _ finished(1)] by simp
  then show ?thesis using finished(6) by simp
qed

text \<open>
  When a cancellation predicate is given, every step that \<open>run_pipeline\<close> calls is called
  right after the predicate was asked, the quality-fix write excepted.
\<close>

lemma only_quality_fix_unchecked:
  assumes run: "run_pipeline env args w0 = (res, w', tr)"
    and pred: "should_cancel args = Some p"
  shows "set (unchecked_steps asked tr) \<subseteq> {StepQualityFix}"
proof -
  have "unasked_only_quality_fix tr"
    using run unfolding run_pipeline_def Let_def
  proof (cases rule: bindM_cases)
    case (raised e)
    then show ?thesis using checked_phase_unasked(1)[OF pred unasked_Nil raised(1)] by simp
  next
    case a: (returned r1 w1 t1 t2)
    from a(2) have "unasked_only_quality_fix t2"
    proof (cases rule: bindM_cases)
      case (raised e)
      then show ?thesis using checked_phase_unasked(2)[OF pred unasked_Nil raised(1)] by simp
    next
      case b: (returned d1 w2 t3 t4)
      from b(2) have "unasked_only_quality_fix t4"
      proof (cases rule: bindM_cases)
        case (raised e)
        then show ?thesis using checked_phase_unasked(3)[OF pred unasked_Nil raised(1)] by simp
      next
        case c: (returned wr w3 t5 t6)
        have "unasked_only_quality_fix t6" using pred c(2) by (rule after_writer_unasked)
        then show ?thesis using checked_phase_unasked(3)[OF pred _ c(1)] c(3) by simp
      qed
      then show ?thesis using checked_phase_unasked(2)[OF pred _ b(1)] b(3) by simp
    qed
    then show ?thesis using checked_phase_unasked(1)[OF pred _ a(1)] a(3) by simp
  qed
  then show ?thesis by (simp add: unasked_iff)
qed

text \<open>The exception is real: in the run below the quality-fix write is called unasked.\<close>

lemma quality_fix_unchecked_run:
  "unchecked_steps False (snd (snd (run_pipeline (stubborn_env [])
      (fake_args oc_cfg (Some cancel_after_two_writes)) []))) = [StepQualityFix]"
  by code_simp

text \<open>
  C3 does not hold of the quality-fix write: \<open>run_pipeline\<close> calls \<open>_check_cancel\<close> before
  each of the other six steps and not before this one. Here the predicate says yes from
  the second call of the writer on. It is asked four times, each time before that, and
  the writer is called a third time, for the quality fix, without a fifth question; the
  run returns a report instead of raising the cancellation signal.
\<close>

theorem quality_fix_without_cancel_check:
  "cancel_after_two_writes [Research, Data, Writer, Writer]
   \<and> trace_outline (snd (snd (run_pipeline (stubborn_env [])
         (fake_args oc_cfg (Some cancel_after_two_writes)) [])))
       = [Inl False, Inr StepResearch, Inl False, Inr StepData, Inl False, Inr StepWrite,
          Inl False, Inr StepWriteRepair, Inr StepQualityFix]
   \<and> fst (snd (run_pipeline (stubborn_env []) (fake_args oc_cfg (Some cancel_after_two_writes)) []))
       = [Research, Data, Writer, Writer, Writer]
   \<and> map_sum id out_report
         (fst (run_pipeline (stubborn_env []) (fake_args oc_cfg (Some cancel_after_two_writes)) []))
       = Inr (''Objective:'' @ [LF] @ ''x'')"
  by code_simp

section \<open>C9: the results of the steps\<close>

text \<open>The two ways out of \<open>try ... except Exception as e\<close>\<close>

lemma try_except_cases:
  obtains (returned) r w1 where "body w = (Inr r, w1)" "try_except body handler w = (r, w1)"
  | (caught) e w1 where "body w = (Inl e, w1)" "try_except body handler w = (handler e, w1)"
proof (cases "body w")
  case (Pair x w1)
  then show ?thesis
    by (cases x) (auto simp: try_except_def intro: returned caught)
qed

text \<open>What the \<open>try\<close> blocks of the five agents return when they do not raise\<close>

lemma writer_try_success:
  "writer_try chat dumps j c w = (Inr r, w1) \<Longrightarrow> \<exists>p. r = success Writer j (Some p) None"
  unfolding writer_try_def Let_def
  by (auto split: sum.splits prod.splits if_splits)

lemma reviewer_try_success:
  "reviewer_try chat j c w = (Inr r, w1) \<Longrightarrow>
     (\<exists>p. r = success Reviewer j (Some p) None)
     \<or> r = fail Reviewer j ''No report provided to reviewer'' None"
  unfolding reviewer_try_def Let_def
  by (auto split: sum.splits prod.splits if_splits)

lemma diagram_try_success:
  "diagram_try chat dumps j c w = (Inr r, w1) \<Longrightarrow> \<exists>p. r = success Diagram j (Some p) None"
  unfolding diagram_try_def Let_def
  by (auto split: sum.splits prod.splits if_splits)

lemma research_try_success:
  "research_try chat j c w = (Inr r, w1) \<Longrightarrow> \<exists>p. r = success Research j (Some p) None"
  unfolding research_try_def Let_def
  by (auto split: sum.splits prod.splits if_splits)

lemma data_try_success:
  "data_try read_csv lib j c w = (Inr r, w1) \<Longrightarrow> \<exists>p. r = success Data j (Some p) None"
  unfolding data_try_def Let_def
  by (auto split: sum.splits prod.splits if_splits option.splits)

text \<open>
  The result of each \<open>run\<close>, by the way its \<open>try\<close> block ends: with a success, or with an
  exception, whose class name and message are the detail of the failure.
\<close>

lemma writer_forms:
  "(\<exists>p. fst (writer_try chat dumps j c2 w) = Inr (success Writer j (Some p) None)
         \<and> fst (writer_agent_run chat dumps j c2 w) = success Writer j (Some p) None)
      \<or> (\<exists>e. fst (writer_try chat dumps j c2 w) = Inl e
             \<and> fst (writer_agent_run chat dumps j c2 w)
                 = fail Writer j ''Writer agent failed'' (Some (exn_class e @ '': '' @ exn_str e)))"
proof (cases rule: try_except_cases[of "writer_try chat dumps j c2" w
      "\<lambda>e. fail Writer j ''Writer agent failed'' (failure_detail e)"])
  case (returned r w1)
  then show ?thesis using writer_try_success[OF returned(1)] by (auto simp: writer_agent_run_def)
next
  case (caught e w1)
  then show ?thesis by (auto simp: writer_agent_run_def failure_detail_def)
qed

lemma research_forms:
  "(\<exists>p. fst (research_try chat j c w) = Inr (success Research j (Some p) None)
         \<and> fst (research_agent_run chat j c w) = success Research j (Some p) None)
      \<or> (\<exists>e. fst (research_try chat j c w) = Inl e
             \<and> fst (research_agent_run chat j c w)
                 = fail Research j ''Research agent failed'' (Some (exn_class e @ '': '' @ exn_str e)))"
proof (cases rule: try_except_cases[of "research_try chat j c" w
      "\<lambda>e. fail Research j ''Research agent failed'' (failure_detail e)"])
  case (returned r w1)
  then show ?thesis using research_try_success[OF returned(1)] by (auto simp: research_agent_run_def)
next
  case (caught e w1)
  then show ?thesis by (auto simp: research_agent_run_def failure_detail_def)
qed

lemma data_forms:
  "(\<exists>p. fst (data_try read_csv lib j c w) = Inr (success Data j (Some p) None)
         \<and> fst (data_agent_run read_csv lib j c w) = success Data j (Some p) None)
      \<or> (\<exists>e. fst (data_try read_csv lib j c w) = Inl e
             \<and> fst (data_agent_run read_csv lib j c w)
                 = fail Data j ''Data agent failed'' (Some (exn_class e @ '': '' @ exn_str e)))"
proof (cases rule: try_except_cases[of "data_try read_csv lib j c" w
      "\<lambda>e. fail Data j ''Data agent failed'' (failure_detail e)"])
  case (returned r w1)
  then show ?thesis using data_try_success[OF returned(1)] by (auto simp: data_agent_run_def)
next
  case (caught e w1)
  then show ?thesis by (auto simp: data_agent_run_def failure_detail_def)
qed

lemma reviewer_forms:
  "(\<exists>p. fst (reviewer_try chat j rc w) = Inr (success Reviewer j (Some p) None)
         \<and> fst (reviewer_agent_run chat j rc w) = success Reviewer j (Some p) None)
      \<or> (strip (rc_report_text rc) = []
          \<and> fst (reviewer_agent_run chat j rc w)
              = fail Reviewer j ''No report provided to reviewer'' None)
      \<or> (\<exists>e. fst (reviewer_try chat j rc w) = Inl e
             \<and> fst (reviewer_agent_run chat j rc w)
                 = fail Reviewer j ''Reviewer agent failed'' (Some (exn_class e @ '': '' @ exn_str e)))"
proof (cases rule: try_except_cases[of "reviewer_try chat j rc" w
      "\<lambda>e. fail Reviewer j ''Reviewer agent failed'' (failure_detail e)"])
  case (returned r w1)
  have "(\<exists>p. r = success Reviewer j (Some p) None)
     \<or> (strip (rc_report_text rc) = [] \<and> r = fail Reviewer j ''No report provided to reviewer'' None)"
    using returned(1) unfolding reviewer_try_def Let_def
    by (auto split: sum.splits prod.splits if_splits)
  then show ?thesis using returned by (auto simp: reviewer_agent_run_def)
next
  case (caught e w1)
  then show ?thesis by (auto simp: reviewer_agent_run_def failure_detail_def)
qed

lemma diagram_forms:
  "(\<exists>p. fst (diagram_try chat dumps j dc w) = Inr (success Diagram j (Some p) None)
         \<and> fst (diagram_agent_run chat dumps j dc w) = success Diagram j (Some p) None)
      \<or> (\<exists>e. fst (diagram_try chat dumps j dc w) = Inl e
             \<and> fst (diagram_agent_run chat dumps j dc w)
                 = fail Diagram j ''Diagram agent failed'' (Some (exn_class e @ '': '' @ exn_str e)))"
proof (cases rule: try_except_cases[of "diagram_try chat dumps j dc" w
      "\<lambda>e. fail Diagram j ''Diagram agent failed'' (failure_detail e)"])
  case (returned r w1)
  then show ?thesis using diagram_try_success[OF returned(1)] by (auto simp: diagram_agent_run_def)
next
  case (caught e w1)
  then show ?thesis by (auto simp: diagram_agent_run_def failure_detail_def)
qed

text \<open>
  C9. A result built by \<open>AgentResult.success\<close> has \<open>ok = True\<close> and no error; a result
  built by \<open>AgentResult.fail\<close> has \<open>ok = False\<close>, the error with its message and its optional
  detail, and the empty payload; no result is both. Whatever the text generator,
  \<open>json.dumps\<close> and pandas return or raise, the \<open>run\<close> of each of the five agents, research,
  data, writer, reviewer and diagram, returns a result of one of the two forms, and
  nothing raised inside \<open>run\<close> leaves it: either the \<open>try\<close> block returns a success and
  \<open>run\<close> returns it, or the block raises an exception \<open>e\<close> and \<open>run\<close> returns the failure
  whose detail is the class name and the message of \<open>e\<close>. The reviewer has a third way: for
  a report that is blank it returns a failure without detail.
\<close>

theorem step_results:
  "ok (success a j p ws) \<and> error (success a j p ws) = None
   \<and> \<not> ok (fail a j m d) \<and> error (fail a j m d) = Some \<lparr>message = m, err_detail = d\<rparr>
   \<and> payload (fail a j m d) = empty_payload
   \<and> success a j p ws \<noteq> fail a' j' m d
   \<and> ((\<exists>p. fst (research_try chat j c w) = Inr (success Research j (Some p) None)
         \<and> fst (research_agent_run chat j c w) = success Research j (Some p) None)
      \<or> (\<exists>e. fst (research_try chat j c w) = Inl e
             \<and> fst (research_agent_run chat j c w)
                 = fail Research j ''Research agent failed'' (Some (exn_class e @ '': '' @ exn_str e))))
   \<and> ((\<exists>p. fst (data_try read_csv lib j c wd) = Inr (success Data j (Some p) None)
         \<and> fst (data_agent_run read_csv lib j c wd) = success Data j (Some p) None)
      \<or> (\<exists>e. fst (data_try read_csv lib j c wd) = Inl e
             \<and> fst (data_agent_run read_csv lib j c wd)
                 = fail Data j ''Data agent failed'' (Some (exn_class e @ '': '' @ exn_str e))))
   \<and> ((\<exists>p. fst (writer_try chat dumps j c2 w) = Inr (success Writer j (Some p) None)
         \<and> fst (writer_agent_run chat dumps j c2 w) = success Writer j (Some p) None)
      \<or> (\<exists>e. fst (writer_try chat dumps j c2 w) = Inl e
             \<and> fst (writer_agent_run chat dumps j c2 w)
                 = fail Writer j ''Writer agent failed'' (Some (exn_class e @ '': '' @ exn_str e))))
   \<and> ((\<exists>p. fst (reviewer_try chat j rc w) = Inr (success Reviewer j (Some p) None)
         \<and> fst (reviewer_agent_run chat j rc w) = success Reviewer j (Some p) None)
      \<or> (strip (rc_report_text rc) = []
          \<and> fst (reviewer_agent_run chat j rc w)
              = fail Reviewer j ''No report provided to reviewer'' None)
      \<or> (\<exists>e. fst (reviewer_try chat j rc w) = Inl e
             \<and> fst (reviewer_agent_run chat j rc w)
                 = fail Reviewer j ''Reviewer agent failed'' (Some (exn_class e @ '': '' @ exn_str e))))
   \<and> ((\<exists>p. fst (diagram_try chat dumps j dc w) = Inr (success Diagram j (Some p) None)
         \<and> fst (diagram_agent_run chat dumps j dc w) = success Diagram j (Some p) None)
      \<or> (\<exists>e. fst (diagram_try chat dumps j dc w) = Inl e
             \<and> fst (diagram_agent_run chat dumps j dc w)
                 = fail Diagram j ''Diagram agent failed'' (Some (exn_class e @ '': '' @ exn_str e))))"
proof -
  have c: "ok (success a j p ws) \<and> error (success a j p ws) = None
   \<and> \<not> ok (fail a j m d) \<and> error (fail a j m d) = Some \<lparr>message = m, err_detail = d\<rparr>
   \<and> payload (fail a j m d) = empty_payload
   \<and> success a j p ws \<noteq> fail a' j' m d"
    by (simp add: success_def fail_def)
  show ?thesis
    by (intro conjI c[THEN conjunct1] c[THEN conjunct2, THEN conjunct1]
        c[THEN conjunct2, THEN conjunct2, THEN conjunct1]
        c[THEN conjunct2, THEN conjunct2, THEN conjunct2, THEN conjunct1]
        c[THEN conjunct2, THEN conjunct2, THEN conjunct2, THEN conjunct2, THEN conjunct1]
        c[THEN conjunct2, THEN conjunct2, THEN conjunct2, THEN conjunct2, THEN conjunct2]
        research_forms data_forms writer_forms reviewer_forms diagram_forms)
qed

text \<open>
  The exception of the research step is the one the text generator raises; a file that
  cannot be read makes the data step fail with the exception of \<open>pd.read_csv\<close>.
\<close>

lemma research_raises_iff:
  "research_try chat j c w = (Inl e, w1) \<longleftrightarrow>
     chat research_SYSTEM
        (''GOAL:'' @ [LF] @ strip (goal c) @ [LF] @ [LF]
         @ ''MANUAL / NOTES TEXT:'' @ [LF] @ strip (manual_text c) @ [LF] @ [LF]
         @ ''Extract the structured theory now.'') w = (Inl e, w1)"
  unfolding research_try_def
  by (auto split: sum.splits prod.splits)

lemma data_raises_read_csv:
  "csv_path c = Some path \<Longrightarrow> path \<noteq> [] \<Longrightarrow> read_csv path w = (Inl e, w1) \<Longrightarrow>
     data_agent_run read_csv lib j c w
       = (fail Data j ''Data agent failed'' (Some (exn_class e @ '': '' @ exn_str e)), w1)"
  by (simp add: data_agent_run_def try_except_def data_try_def failure_detail_def)

text \<open>A text generator that raises: the writer returns the failure.\<close>

lemma writer_failure_run:
  "fst (writer_agent_run (\<lambda>system user w. (Inl (LLMError ''Empty model response''), w))
          (\<lambda>d. Inr ''{}'') ''job1''
          (ctx.extend \<lparr>manual_text = [], goal = [], csv_path = None, ctx_preview_rows = 10,
              extra_instructions = [], ctx_template_cfg = oc_cfg\<rparr>
            \<lparr>theory_text = [], research_facts = [], data_summary = [], data_highlights = []\<rparr>) ())
   = fail Writer ''job1'' ''Writer agent failed'' (Some ''LLMError: Empty model response'')"
  by code_simp

text \<open>
  The data agent without a file, with a missing file, with a frame whose correlation
  raises, and with a frame of four columns and two rows, where \<open>v\<close> is \<open>2 + 2 * Time\<close>.
\<close>

lemma data_no_csv:
  "fst (data_agent_run fake_read_csv fake_lib ''job1'' (data_ctx None) ())
     = success Data ''job1'' (Some (empty_payload\<lparr>p_data_summary := Some []\<rparr>)) None
   \<and> fst (data_agent_run fake_read_csv fake_lib ''job1'' (data_ctx (Some [])) ())
     = success Data ''job1'' (Some (empty_payload\<lparr>p_data_summary := Some []\<rparr>)) None"
  by code_simp

lemma data_missing_file:
  "fst (data_agent_run fake_read_csv fake_lib ''job1'' (data_ctx (Some ''x.csv'')) ())
     = fail Data ''job1'' ''Data agent failed''
         (Some (''FileNotFoundError: [Errno 2] No such file or directory: '' @ CHR 0x27 # ''x.csv'' @ [CHR 0x27]))"
  by code_simp

lemma data_corr_raises:
  "fst (data_agent_run fake_read_csv fake_lib ''job1'' (data_ctx (Some ''two.csv'')) ())
     = fail Data ''job1'' ''Data agent failed'' (Some ''ValueError: no correlation'')"
  by code_simp

lemma data_summary_run:
  "data_view (fst (data_agent_run fake_read_csv fake_lib ''job1'' (data_ctx (Some ''one.csv'')) ()))
   = (True,
      Some (JObj [(''x'', JStr ''Time''), (''y'', JStr ''v''), (''n_used'', JInt 2),
                  (''slope'', JNum 2), (''intercept'', JNum 2), (''r2'', JNum 1)]),
      Some (JList
         [JObj [(''pair'', JList [JStr ''v'', JStr ''u'']), (''corr'', JNum (- 1))],
          JObj [(''pair'', JList [JStr ''Time'', JStr ''v'']), (''corr'', JNum (1 / 2))],
          JObj [(''pair'', JList [JStr ''Time'', JStr ''u'']), (''corr'', JNum (1 / 2))]]),
      Some [(''key_findings'', JList
               [JStr ''Dataset has 2 rows across 4 columns (3 numeric).'',
                JStr (''Highest missingness is in '' @ quoted ''label'' @ '' (<.1f>%).''),
                JStr (''Primary linear trend suggests '' @ quoted ''v'' @ '' changes by <.4g> per 1 unit of ''
                      @ quoted ''Time'' @ ''.''),
                JStr (''Strongest observed correlation is between '' @ quoted ''v'' @ '' and ''
                      @ quoted ''u'' @ '' (r=<.3f>).'')]),
            (''calculation_snippets'', JList
               [JStr ''Linear fit on (Time, v): slope=<.6g>, intercept=<float>, R^2=<.4f>'',
                JStr ''Pearson correlation: r(v, u) = <.6g>''])])"
  by code_simp

section \<open>C8: the count of outliers\<close>

lemma quantile_linear_const:
  assumes "xs \<noteq> []" "\<forall>x\<in>set xs. x = v" "0 \<le> q" "q \<le> 1"
  shows "quantile_linear xs q = Some v"
proof -
  let ?ys = "sort xs"
  let ?n = "length ?ys"
  have n: "0 < ?n" using assms(1) by simp
  have all: "\<And>i. i < ?n \<Longrightarrow> ?ys ! i = v"
    using assms(2) by (metis nth_mem set_sort)
  let ?pos = "q * real (?n - 1)"
  have "?pos \<le> real (?n - 1)" using assms(3,4) by (simp add: mult_left_le_one_le)
  then have "\<lfloor>?pos\<rfloor> \<le> int (?n - 1)" by linarith
  then have i: "nat \<lfloor>?pos\<rfloor> < ?n" using n by linarith
  have "?n - 1 < ?n" using n by simp
  then have j: "min (nat \<lfloor>?pos\<rfloor> + 1) (?n - 1) < ?n" by (rule min.strict_coboundedI2)
  show ?thesis
    using assms(1) all[OF i] all[OF j] by (simp add: quantile_linear_def Let_def)
qed

text \<open>
  C8. Whatever \<open>quantile\<close> computes, \<open>_iqr_outlier_count\<close> returns 0 when the
  interquartile range of the values that are present is undefined or zero. With the
  quantile of pandas, it returns 0 for a column whose values are all equal.
\<close>

theorem iqr_outlier_count_zero:
  "(column_iqr quantile s = None \<or> column_iqr quantile s = Some 0
      \<longrightarrow> iqr_outlier_count quantile s = 0)
   \<and> ((\<forall>x\<in>set (dropna s). x = v) \<longrightarrow> iqr_outlier_count quantile_linear s = 0)"
proof (intro conjI impI)
  assume "column_iqr quantile s = None \<or> column_iqr quantile s = Some 0"
  then show "iqr_outlier_count quantile s = 0"
    by (auto simp: column_iqr_def iqr_outlier_count_def Let_def split: option.splits)
next
  assume eq: "\<forall>x\<in>set (dropna s). x = v"
  show "iqr_outlier_count quantile_linear s = 0"
  proof (cases "dropna s = []")
    case True
    then show ?thesis by (simp add: iqr_outlier_count_def)
  next
    case False
    have "quantile_linear (dropna s) (1 / 4) = Some v" "quantile_linear (dropna s) (3 / 4) = Some v"
      using quantile_linear_const[OF False eq] by simp_all
    then show ?thesis using False by (simp add: iqr_outlier_count_def Let_def)
  qed
qed

theorem iqr_outlier_count_zero_witness:
  "iqr_outlier_count (\<lambda>xs q. None) [Some 1, None] = 0
   \<and> iqr_outlier_count quantile_linear [Some 5, None, Some 5, Some 5] = 0"
proof -
  have h1: "column_iqr (\<lambda>xs q. None) [Some 1, None] = None
      \<or> column_iqr (\<lambda>xs q. None) [Some 1, None] = Some 0"
    by (simp add: column_iqr_def dropna_def)
  have h2: "\<forall>x\<in>set (dropna [Some 5, None, Some 5, Some 5]). x = (5::real)"
    by (simp add: dropna_def)
  show ?thesis
    using iqr_outlier_count_zero[of "\<lambda>xs q. None"
        "[Some 1, None]" 5]
      iqr_outlier_count_zero[of quantile_linear "[Some 5, None, Some 5, Some 5]" 5] h1 h2
    by blast
qed

text \<open>A column with one value far from the others has one outlier.\<close>

lemma outliers_counted:
  "iqr_outlier_count quantile_linear [Some 1, Some 2, Some 3, Some 4, Some 100] = 1"
  by (simp add: iqr_outlier_count_def dropna_def quantile_linear_def Let_def)

end
